theory Spec2Isabelle
  imports Main
begin

section \<open>Command recognition: the two regular expressions of lgtm.go\<close>

text \<open>
  A Go string is a sequence of bytes, modelled as \<^typ>\<open>string\<close>. The package \<open>regexp\<close>
  reads it as UTF-8. The two patterns of the plugin are compiled with the flags \<open>m\<close>
  (\<open>^\<close> and \<open>$\<close> match at line boundaries) and \<open>i\<close> (a literal matches every rune of its
  simple case-folding orbit). All runes of the patterns are ASCII; the orbit of an ASCII
  letter is the letter in both cases, and for \<open>s\<close> and \<open>k\<close> one further rune each
  (U+017F and U+212A), which occupy two and three bytes.
\<close>

datatype regex =
    Literal string
  | CharClass "char list"
  | BeginLine
  | EndLine
  | Quest regex
  | Star regex
  | Cat regex regex

definition newline :: char where
  "newline = CHR 0x0A"

definition perl_space :: "char list" where
  \<comment> \<open>the class \<open>\s\<close> of Go's regexp syntax: tab, newline, form feed, carriage return, space\<close>
  "perl_space = [CHR 0x09, CHR 0x0A, CHR 0x0C, CHR 0x0D, CHR 0x20]"

definition lower_upper :: "(char \<times> char) list" where
  "lower_upper = zip ''abcdefghijklmnopqrstuvwxyz'' ''ABCDEFGHIJKLMNOPQRSTUVWXYZ''"

definition fold_variants :: "char \<Rightarrow> string list" where
  \<comment> \<open>the UTF-8 encodings of the runes that a case-folded ASCII literal matches\<close>
  "fold_variants c =
     [c] #
     (case map_of lower_upper c of Some u \<Rightarrow> [[u]] | None \<Rightarrow> []) @
     (case map_of (map prod.swap lower_upper) c of Some l \<Rightarrow> [[l]] | None \<Rightarrow> []) @
     (if c = CHR ''s'' \<or> c = CHR ''S'' then [[CHR 0xC5, CHR 0xBF]] else []) @
     (if c = CHR ''k'' \<or> c = CHR ''K'' then [[CHR 0xE2, CHR 0x84, CHR 0xAA]] else [])"

type_synonym pos = "string \<times> string"
  \<comment> \<open>a position in the text: the bytes before it, last first, and the bytes after it\<close>

fun lit_step :: "string \<Rightarrow> pos \<Rightarrow> pos list" where
  "lit_step [] p = [p]"
| "lit_step (c # cs) p =
     concat (map (\<lambda>v. if take (length v) (snd p) = v
                       then lit_step cs (rev v @ fst p, drop (length v) (snd p))
                       else [])
                 (fold_variants c))"

primrec star_step :: "(pos \<Rightarrow> pos list) \<Rightarrow> nat \<Rightarrow> pos \<Rightarrow> pos list" where
  "star_step f 0 p = [p]"
| "star_step f (Suc n) p =
     concat (map (star_step f n) (filter (\<lambda>q. length (snd q) < length (snd p)) (f p))) @ [p]"

primrec step :: "regex \<Rightarrow> pos \<Rightarrow> pos list" where
  "step (Literal w) = lit_step w"
| "step (CharClass cs) =
     (\<lambda>p. case snd p of [] \<Rightarrow> [] | x # xs \<Rightarrow> if x \<in> set cs then [(x # fst p, xs)] else [])"
| "step BeginLine =
     (\<lambda>p. case fst p of [] \<Rightarrow> [p] | x # xs \<Rightarrow> if x = newline then [p] else [])"
| "step EndLine =
     (\<lambda>p. case snd p of [] \<Rightarrow> [p] | x # xs \<Rightarrow> if x = newline then [p] else [])"
| "step (Quest r) = (\<lambda>p. step r p @ [p])"
| "step (Star r) = (\<lambda>p. star_step (step r) (length (snd p)) p)"
| "step (Cat r1 r2) = (\<lambda>p. concat (map (step r2) (step r1 p)))"

definition MatchString :: "regex \<Rightarrow> string \<Rightarrow> bool" where
  \<comment> \<open>\<open>(*Regexp).MatchString\<close>: the pattern matches somewhere in the text\<close>
  "MatchString re s =
     list_ex (\<lambda>i. step re (rev (take i s), drop i s) \<noteq> []) [0 ..< Suc (length s)]"

definition lgtmLabel :: string where
  "lgtmLabel = ''lgtm''"

definition lgtmRe :: regex where
  \<comment> \<open>\<open>(?mi)^/lgtm(?: no-issue)?\s*$\<close>\<close>
  "lgtmRe =
     Cat BeginLine
       (Cat (Cat (Literal ''/lgtm'') (Quest (Literal '' no-issue'')))
            (Cat (Star (CharClass perl_space)) EndLine))"

definition lgtmCancelRe :: regex where
  \<comment> \<open>\<open>(?mi)^/lgtm cancel\s*$\<close>\<close>
  "lgtmCancelRe =
     Cat BeginLine
       (Cat (Literal ''/lgtm cancel'')
            (Cat (Star (CharClass perl_space)) EndLine))"

definition removeLGTMLabelNoti :: string where
  "removeLGTMLabelNoti = ''New changes are detected. LGTM label has been removed.''"

subsection \<open>The reading of section 4.1 of the specification\<close>

text \<open>
  The specification describes the two patterns line by line: the body is cut at newlines,
  trailing white space of a line is dropped, and what is left is compared with the command
  without regard to case. These definitions follow that description; they are compared
  with \<^const>\<open>MatchString\<close> below.
\<close>

fun split_lines :: "string \<Rightarrow> string list" where
  "split_lines [] = [[]]"
| "split_lines (c # cs) =
     (if c = newline then [] # split_lines cs
      else (case split_lines cs of [] \<Rightarrow> [[c]] | l # ls \<Rightarrow> (c # l) # ls))"

definition trim_right :: "string \<Rightarrow> string" where
  "trim_right l = rev (dropWhile (\<lambda>c. c \<in> set perl_space) (rev l))"

fun ci_eq :: "string \<Rightarrow> string \<Rightarrow> bool" where
  \<comment> \<open>\<open>ci_eq w l\<close>: the line \<open>l\<close> is the word \<open>w\<close> up to the case of its letters\<close>
  "ci_eq [] l = (l = [])"
| "ci_eq (c # cs) l =
     list_ex (\<lambda>v. take (length v) l = v \<and> ci_eq cs (drop (length v) l)) (fold_variants c)"

definition approve_line :: "string \<Rightarrow> bool" where
  "approve_line l \<longleftrightarrow>
     ci_eq ''/lgtm'' (trim_right l) \<or> ci_eq ''/lgtm no-issue'' (trim_right l)"

definition cancel_line :: "string \<Rightarrow> bool" where
  "cancel_line l \<longleftrightarrow> ci_eq ''/lgtm cancel'' (trim_right l)"

definition consumes :: "regex \<Rightarrow> (string \<Rightarrow> bool) \<Rightarrow> bool" where
  \<comment> \<open>the matches of \<open>r\<close> from a position are the prefixes of the rest that satisfy \<open>P\<close>\<close>
  "consumes r P \<longleftrightarrow>
     (\<forall>pre suf q. q \<in> set (step r (pre, suf)) \<longleftrightarrow>
        (\<exists>u rest. suf = u @ rest \<and> P u \<and> q = (rev u @ pre, rest)))"


section \<open>The collaborators of the plugin\<close>

text \<open>
  Errors and log entries keep the format string and its arguments as the source writes
  them. \<open>LabelNotFound\<close> is the error type \<open>*github.LabelNotFound\<close>; \<open>ClientError\<close>
  stands for every other error a collaborator may return.
\<close>

datatype error =
    LabelNotFound
  | ClientError string
  | Errorf string "fmt_arg list"
and fmt_arg = AStr string | AInt int | AErr error

datatype log_entry =
    Info string
  | Infof string "fmt_arg list"
  | Debugf string "fmt_arg list"
  | WithError_Errorf error string "fmt_arg list"

record Label =
  Name :: string

record PullRequest =
  Merged :: bool
  pr_Number :: int
  Base_Ref :: string
  Base_Repo_Owner_Login :: string
  Base_Repo_Name :: string

record PullRequestChange =
  Filename :: string

record IssueComment =
  ic_ID :: int
  ic_Body :: string
  ic_User_Login :: string

text \<open>
  The fields of the events and of the platform's answers that the plugin reads. Numbers of
  pull requests and of comments are Go's \<open>int\<close>; the plugin passes them on and never
  computes with them, so they are taken as integers.
\<close>

record GenericCommentEvent =
  IsPR :: bool
  Action :: string
  Body :: string
  HTMLURL :: string
  Number :: int
  Repo_Owner_Login :: string
  Repo_Name :: string
  User_Login :: string
  IssueAuthor_Login :: string
  IssueState :: string
  Assignees :: "string list"  \<comment> \<open>the \<open>Login\<close> of each assignee\<close>

record PullRequestEvent =
  pe_Action :: string
  pe_PullRequest :: PullRequest

record Configuration =
  Owners_SkipCollaborators :: "string list"

record RepoOwner =
  \<comment> \<open>the two methods of \<open>repoowners.RepoOwnerInterface\<close> that the plugin calls\<close>
  Approvers :: "string \<Rightarrow> string set"
  Reviewers :: "string \<Rightarrow> string set"

text \<open>
  The remote platform is a state \<open>'w\<close> that every call may read and change. A call that
  returns a slice, a string or a boolean beside its error returns both, as in Go; a call
  that returns a pointer or an interface value returns either it or the error.
\<close>

record 'w githubClient =
  IsCollaborator :: "string \<Rightarrow> string \<Rightarrow> string \<Rightarrow> 'w \<Rightarrow> (bool \<times> error option) \<times> 'w"
  AddLabel :: "string \<Rightarrow> string \<Rightarrow> int \<Rightarrow> string \<Rightarrow> 'w \<Rightarrow> error option \<times> 'w"
  AssignIssue :: "string \<Rightarrow> string \<Rightarrow> int \<Rightarrow> string list \<Rightarrow> 'w \<Rightarrow> error option \<times> 'w"
  CreateComment :: "string \<Rightarrow> string \<Rightarrow> int \<Rightarrow> string \<Rightarrow> 'w \<Rightarrow> error option \<times> 'w"
  RemoveLabel :: "string \<Rightarrow> string \<Rightarrow> int \<Rightarrow> string \<Rightarrow> 'w \<Rightarrow> error option \<times> 'w"
  GetIssueLabels :: "string \<Rightarrow> string \<Rightarrow> int \<Rightarrow> 'w \<Rightarrow> (Label list \<times> error option) \<times> 'w"
  GetPullRequest :: "string \<Rightarrow> string \<Rightarrow> int \<Rightarrow> 'w \<Rightarrow> (error + PullRequest) \<times> 'w"
  GetPullRequestChanges ::
    "string \<Rightarrow> string \<Rightarrow> int \<Rightarrow> 'w \<Rightarrow> (PullRequestChange list \<times> error option) \<times> 'w"
  ListIssueComments ::
    "string \<Rightarrow> string \<Rightarrow> int \<Rightarrow> 'w \<Rightarrow> (IssueComment list \<times> error option) \<times> 'w"
  DeleteComment :: "string \<Rightarrow> string \<Rightarrow> int \<Rightarrow> 'w \<Rightarrow> error option \<times> 'w"
  BotName :: "'w \<Rightarrow> (string \<times> error option) \<times> 'w"

record 'w repoowners_Interface =
  LoadRepoOwners :: "string \<Rightarrow> string \<Rightarrow> string \<Rightarrow> 'w \<Rightarrow> (error + RepoOwner) \<times> 'w"

record imported =
  \<comment> \<open>\<open>plugins.FormatResponseRaw\<close> and \<open>github.NormLogin\<close>, declared outside this plugin\<close>
  FormatResponseRaw :: "string \<Rightarrow> string \<Rightarrow> string \<Rightarrow> string \<Rightarrow> string"
  NormLogin :: "string \<Rightarrow> string"

datatype call =
    IsCollaboratorCall string string string
  | AddLabelCall string string int string
  | AssignIssueCall string string int "string list"
  | CreateCommentCall string string int string
  | RemoveLabelCall string string int string
  | GetIssueLabelsCall string string int
  | GetPullRequestCall string string int
  | GetPullRequestChangesCall string string int
  | ListIssueCommentsCall string string int
  | DeleteCommentCall string string int
  | BotNameCall
  | LoadRepoOwnersCall string string string

record 'w run =
  world :: 'w
  calls :: "call list"      \<comment> \<open>the calls made so far, oldest first\<close>
  logs :: "log_entry list"  \<comment> \<open>what was written to the logger, oldest first\<close>

definition invoke :: "call \<Rightarrow> ('w \<Rightarrow> 'a \<times> 'w) \<Rightarrow> 'w run \<Rightarrow> 'a \<times> 'w run" where
  "invoke c f s =
     (case f (world s) of (r, w) \<Rightarrow> (r, s\<lparr>world := w, calls := calls s @ [c]\<rparr>))"

definition logf :: "log_entry \<Rightarrow> 'w run \<Rightarrow> 'w run" where
  "logf l s = s\<lparr>logs := logs s @ [l]\<rparr>"

definition GenericCommentActionCreated :: string where
  \<comment> \<open>Modelled from the spec: the constant of package \<open>github\<close> for the action "created"\<close>
  "GenericCommentActionCreated = ''created''"

definition PullRequestActionSynchronize :: string where
  \<comment> \<open>Modelled from the spec: the constant of package \<open>github\<close> for the action "synchronize"\<close>
  "PullRequestActionSynchronize = ''synchronize''"


section \<open>The plugin\<close>

definition skipCollaborators :: "Configuration \<Rightarrow> string \<Rightarrow> string \<Rightarrow> bool" where
  "skipCollaborators config org repo =
     (let full = org @ ''/'' @ repo
      in list_ex (\<lambda>elem. elem = org \<or> elem = full) (Owners_SkipCollaborators config))"

definition loadRepoOwners ::
  "'w githubClient \<Rightarrow> 'w repoowners_Interface \<Rightarrow> string \<Rightarrow> string \<Rightarrow> int \<Rightarrow> 'w run
     \<Rightarrow> (error + RepoOwner) \<times> 'w run" where
  "loadRepoOwners gc ownersClient org repo number s =
     (case invoke (GetPullRequestCall org repo number) (GetPullRequest gc org repo number) s of
        (Inl err, s1) \<Rightarrow> (Inl err, s1)
      | (Inr pr, s1) \<Rightarrow>
          invoke (LoadRepoOwnersCall org repo (Base_Ref pr))
                 (LoadRepoOwners ownersClient org repo (Base_Ref pr)) s1)"

definition getChangedFiles ::
  "'w githubClient \<Rightarrow> string \<Rightarrow> string \<Rightarrow> int \<Rightarrow> 'w run \<Rightarrow> (error + string list) \<times> 'w run" where
  "getChangedFiles gc org repo number s =
     (case invoke (GetPullRequestChangesCall org repo number)
                  (GetPullRequestChanges gc org repo number) s of
        ((changes, Some err), s1) \<Rightarrow>
          (Inl (Errorf ''cannot get PR changes for %s/%s#%d'' [AStr org, AStr repo, AInt number]), s1)
      | ((changes, None), s1) \<Rightarrow> (Inr (map Filename changes), s1))"

definition loadReviewers :: "RepoOwner \<Rightarrow> string list \<Rightarrow> string set" where
  "loadReviewers ro filenames =
     foldl (\<lambda>reviewers filename. reviewers \<union> Approvers ro filename \<union> Reviewers ro filename)
           {} filenames"

definition wantLGTM_of :: "string \<Rightarrow> bool option" where
  \<comment> \<open>lines 89 to 96 of \<open>handle\<close>: the flag \<open>wantLGTM\<close>, or \<open>None\<close> where the handler returns\<close>
  "wantLGTM_of body =
     (if MatchString lgtmRe body then Some True
      else if MatchString lgtmCancelRe body then Some False
      else None)"

definition isAssignee :: "GenericCommentEvent \<Rightarrow> bool" where
  \<comment> \<open>lines 104 to 110 of \<open>handle\<close>\<close>
  "isAssignee e = list_ex (\<lambda>assignee. assignee = User_Login e) (Assignees e)"

definition quote :: string where
  "quote = [CHR 0x22]"

definition authorize ::
  "imported \<Rightarrow> 'w githubClient \<Rightarrow> Configuration \<Rightarrow> 'w repoowners_Interface
     \<Rightarrow> GenericCommentEvent \<Rightarrow> bool \<Rightarrow> 'w run \<Rightarrow> error option option \<times> 'w run" where
  \<comment> \<open>lines 98 to 150 of \<open>handle\<close>; \<open>Some r\<close> where the handler returns \<open>r\<close>, \<open>None\<close> where
      it goes on to the labels\<close>
  "authorize pkg gc config ownersClient e wantLGTM s =
     (let org = Repo_Owner_Login e;
          repo = Repo_Name e;
          commentAuthor = User_Login e;
          skip = skipCollaborators config org repo;
          isAuthor = (User_Login e = IssueAuthor_Login e)
      in
      if isAuthor \<and> wantLGTM then
        (let resp = ''you cannot LGTM your own PR.'';
             s1 = logf (Infof (''Commenting with '' @ quote @ ''%s'' @ quote @ ''.'') [AStr resp]) s;
             text = FormatResponseRaw pkg (Body e) (HTMLURL e) commentAuthor resp
         in case invoke (CreateCommentCall org repo (Number e) text)
                        (CreateComment gc org repo (Number e) text) s1 of
              (r, s2) \<Rightarrow> (Some r, s2))
      else if \<not> isAuthor \<and> \<not> isAssignee e \<and> \<not> skip then
        (let s1 = logf (Infof ''Assigning %s/%s#%d to %s''
                          [AStr org, AStr repo, AInt (Number e), AStr commentAuthor]) s
         in case invoke (AssignIssueCall org repo (Number e) [commentAuthor])
                        (AssignIssue gc org repo (Number e) [commentAuthor]) s1 of
              (None, s2) \<Rightarrow> (None, s2)
            | (Some err, s2) \<Rightarrow>
                (case invoke (IsCollaboratorCall org repo commentAuthor)
                             (IsCollaborator gc org repo commentAuthor) s2 of
                   ((ok, merr), s3) \<Rightarrow>
                     (let msg = (if merr = None \<and> \<not> ok
                                 then ''only '' @ org @ ''/'' @ repo @
                                      '' repo collaborators may be assigned issues''
                                 else ''assigning you to the PR failed'');
                          s4 = (if merr = None \<and> \<not> ok then s3
                                else case merr of
                                       Some merr' \<Rightarrow>
                                         logf (WithError_Errorf merr' ''Failed IsCollaborator(%s, %s, %s)''
                                                 [AStr org, AStr repo, AStr commentAuthor]) s3
                                     | None \<Rightarrow>
                                         logf (WithError_Errorf err ''Failed AssignIssue(%s, %s, %d, %s)''
                                                 [AStr org, AStr repo, AInt (Number e),
                                                  AStr commentAuthor]) s3);
                          resp = ''changing LGTM is restricted to assignees, and '' @ msg @ ''.'';
                          s5 = logf (Infof (''Reply to assign via /lgtm request with comment: '' @
                                            quote @ ''%s'' @ quote) [AStr resp]) s4;
                          text = FormatResponseRaw pkg (Body e) (HTMLURL e) commentAuthor resp
                      in case invoke (CreateCommentCall org repo (Number e) text)
                                     (CreateComment gc org repo (Number e) text) s5 of
                           (r, s6) \<Rightarrow> (Some r, s6))))
      else if \<not> isAuthor \<and> skip then
        (let s1 = logf (Debugf ''Skipping collaborator checks and loading OWNERS for %s/%s#%d''
                          [AStr org, AStr repo, AInt (Number e)]) s
         in case loadRepoOwners gc ownersClient org repo (Number e) s1 of
              (Inl err, s2) \<Rightarrow> (Some (Some err), s2)
            | (Inr ro, s2) \<Rightarrow>
                (case getChangedFiles gc org repo (Number e) s2 of
                   (Inl err, s3) \<Rightarrow> (Some (Some err), s3)
                 | (Inr filenames, s3) \<Rightarrow>
                     if NormLogin pkg commentAuthor \<notin> loadReviewers ro filenames then
                       (let resp = ''adding LGTM is restricted to approvers and reviewers in OWNERS files.'';
                            s4 = logf (Infof (''Reply to /lgtm request with comment: '' @
                                              quote @ ''%s'' @ quote) [AStr resp]) s3;
                            text = FormatResponseRaw pkg (Body e) (HTMLURL e) commentAuthor resp
                        in case invoke (CreateCommentCall org repo (Number e) text)
                                       (CreateComment gc org repo (Number e) text) s4 of
                             (r, s5) \<Rightarrow> (Some r, s5))
                     else (None, s3)))
      else (None, s))"

fun deleteNotis ::
  "'w githubClient \<Rightarrow> GenericCommentEvent \<Rightarrow> string \<Rightarrow> IssueComment list \<Rightarrow> 'w run \<Rightarrow> 'w run" where
  \<comment> \<open>lines 181 to 187 of \<open>handle\<close>\<close>
  "deleteNotis gc e botname [] s = s"
| "deleteNotis gc e botname (comment # comments) s =
     (if ic_User_Login comment = botname \<and> ic_Body comment = removeLGTMLabelNoti then
        (case invoke (DeleteCommentCall (Repo_Owner_Login e) (Repo_Name e) (ic_ID comment))
                     (DeleteComment gc (Repo_Owner_Login e) (Repo_Name e) (ic_ID comment)) s of
           (Some err, s1) \<Rightarrow>
             deleteNotis gc e botname comments
               (logf (WithError_Errorf err ''Failed to delete comment from %s/%s#%d, ID:%d.''
                        [AStr (Repo_Owner_Login e), AStr (Repo_Name e), AInt (Number e),
                         AInt (ic_ID comment)]) s1)
         | (None, s1) \<Rightarrow> deleteNotis gc e botname comments s1)
      else deleteNotis gc e botname comments s)"

definition cleanup :: "'w githubClient \<Rightarrow> GenericCommentEvent \<Rightarrow> 'w run \<Rightarrow> 'w run" where
  \<comment> \<open>lines 172 to 187 of \<open>handle\<close>\<close>
  "cleanup gc e s =
     (case invoke BotNameCall (BotName gc) s of
        ((botname, err), s1) \<Rightarrow>
          (let s2 = (case err of
                       Some err' \<Rightarrow> logf (WithError_Errorf err' ''Failed to get bot name.'' []) s1
                     | None \<Rightarrow> s1)
           in case invoke (ListIssueCommentsCall (Repo_Owner_Login e) (Repo_Name e) (Number e))
                          (ListIssueComments gc (Repo_Owner_Login e) (Repo_Name e) (Number e)) s2 of
                ((comments, err2), s3) \<Rightarrow>
                  (let s4 = (case err2 of
                               Some err' \<Rightarrow>
                                 logf (WithError_Errorf err'
                                         ''Failed to get the list of issue comments on %s/%s#%d.''
                                         [AStr (Repo_Owner_Login e), AStr (Repo_Name e),
                                          AInt (Number e)]) s3
                             | None \<Rightarrow> s3)
                   in deleteNotis gc e botname comments s4)))"

definition hasLGTM_of :: "Label list \<Rightarrow> bool" where
  \<comment> \<open>lines 158 to 163 of \<open>handle\<close>\<close>
  "hasLGTM_of labels = list_ex (\<lambda>candidate. Name candidate = lgtmLabel) labels"

definition reconcile ::
  "'w githubClient \<Rightarrow> GenericCommentEvent \<Rightarrow> bool \<Rightarrow> 'w run \<Rightarrow> error option \<times> 'w run" where
  \<comment> \<open>lines 152 to 189 of \<open>handle\<close>\<close>
  "reconcile gc e wantLGTM s =
     (let org = Repo_Owner_Login e;
          repo = Repo_Name e
      in case invoke (GetIssueLabelsCall org repo (Number e))
                     (GetIssueLabels gc org repo (Number e)) s of
           ((labels, err), s1) \<Rightarrow>
             (let s2 = (case err of
                          Some err' \<Rightarrow>
                            logf (WithError_Errorf err' ''Failed to get the labels on %s/%s#%d.''
                                    [AStr org, AStr repo, AInt (Number e)]) s1
                        | None \<Rightarrow> s1);
                  hasLGTM = hasLGTM_of labels
              in
              if hasLGTM \<and> \<not> wantLGTM then
                invoke (RemoveLabelCall org repo (Number e) lgtmLabel)
                       (RemoveLabel gc org repo (Number e) lgtmLabel)
                       (logf (Info ''Removing LGTM label.'') s2)
              else if \<not> hasLGTM \<and> wantLGTM then
                (case invoke (AddLabelCall org repo (Number e) lgtmLabel)
                             (AddLabel gc org repo (Number e) lgtmLabel)
                             (logf (Info ''Adding LGTM label.'') s2) of
                   (Some err', s3) \<Rightarrow> (Some err', s3)
                 | (None, s3) \<Rightarrow> (None, cleanup gc e s3))
              else (None, s2)))"

definition handle ::
  "imported \<Rightarrow> 'w githubClient \<Rightarrow> Configuration \<Rightarrow> 'w repoowners_Interface
     \<Rightarrow> GenericCommentEvent \<Rightarrow> 'w run \<Rightarrow> error option \<times> 'w run" where
  "handle pkg gc config ownersClient e s =
     (if \<not> IsPR e \<or> IssueState e \<noteq> ''open'' \<or> Action e \<noteq> GenericCommentActionCreated
      then (None, s)
      else case wantLGTM_of (Body e) of
             None \<Rightarrow> (None, s)
           | Some wantLGTM \<Rightarrow>
               (case authorize pkg gc config ownersClient e wantLGTM s of
                  (Some r, s1) \<Rightarrow> (r, s1)
                | (None, s1) \<Rightarrow> reconcile gc e wantLGTM s1))"

definition handlePullRequest ::
  "'w githubClient \<Rightarrow> PullRequestEvent \<Rightarrow> 'w run \<Rightarrow> error option \<times> 'w run" where
  "handlePullRequest gc pe s =
     (if Merged (pe_PullRequest pe) then (None, s)
      else if pe_Action pe \<noteq> PullRequestActionSynchronize then (None, s)
      else
        (let org = Base_Repo_Owner_Login (pe_PullRequest pe);
             repo = Base_Repo_Name (pe_PullRequest pe);
             number = pr_Number (pe_PullRequest pe)
         in case invoke (RemoveLabelCall org repo number lgtmLabel)
                        (RemoveLabel gc org repo number lgtmLabel) s of
              (Some err, s1) \<Rightarrow>
                (let labelNotFound = (err = LabelNotFound)
                 in if \<not> labelNotFound
                    then (Some (Errorf ''failed removing lgtm label: %v'' [AErr err]), s1)
                    else (None, s1))
            | (None, s1) \<Rightarrow>
                invoke (CreateCommentCall org repo number removeLGTMLabelNoti)
                       (CreateComment gc org repo number removeLGTMLabelNoti)
                       (logf (Infof ''Create a LGTM removed notification to %s/%s#%d  with a message: %s''
                                [AStr org, AStr repo, AInt number, AStr removeLGTMLabelNoti]) s1)))"


section \<open>A small platform for the scenarios\<close>

text \<open>
  The scenarios below run the handlers against a platform whose state is the list of
  labels of the one pull request: every call succeeds, adding and removing a label
  changes the list, and removing a label that is not there fails with
  \<^const>\<open>LabelNotFound\<close>.
\<close>

definition fake_client :: "string list githubClient" where
  "fake_client =
     \<lparr>IsCollaborator = (\<lambda>org repo login w. ((True, None), w)),
      AddLabel = (\<lambda>org repo number label w. (None, w @ [label])),
      AssignIssue = (\<lambda>org repo number logins w. (None, w)),
      CreateComment = (\<lambda>org repo number comment w. (None, w)),
      RemoveLabel = (\<lambda>org repo number label w.
         if label \<in> set w then (None, removeAll label w) else (Some LabelNotFound, w)),
      GetIssueLabels = (\<lambda>org repo number w. ((map (\<lambda>n. \<lparr>Name = n\<rparr>) w, None), w)),
      GetPullRequest = (\<lambda>org repo number w.
         (Inr \<lparr>Merged = False, pr_Number = number, Base_Ref = ''master'',
               Base_Repo_Owner_Login = org, Base_Repo_Name = repo\<rparr>, w)),
      GetPullRequestChanges = (\<lambda>org repo number w.
         (([\<lparr>Filename = ''a.go''\<rparr>, \<lparr>Filename = ''b.go''\<rparr>], None), w)),
      ListIssueComments = (\<lambda>org repo number w. (([], None), w)),
      DeleteComment = (\<lambda>org repo ID w. (None, w)),
      BotName = (\<lambda>w. ((''k8s-ci-robot'', None), w))\<rparr>"

definition fake_owners :: "string list repoowners_Interface" where
  "fake_owners =
     \<lparr>LoadRepoOwners = (\<lambda>org repo ref w.
        (Inr \<lparr>Approvers = (\<lambda>path. if path = ''a.go'' then {''alice''} else {}),
              Reviewers = (\<lambda>path. if path = ''b.go'' then {''bob''} else {})\<rparr>, w))\<rparr>"

definition ascii_lower :: "char \<Rightarrow> char" where
  "ascii_lower c = (case map_of (map prod.swap lower_upper) c of Some l \<Rightarrow> l | None \<Rightarrow> c)"

definition fake_pkg :: imported where
  "fake_pkg =
     \<lparr>FormatResponseRaw = (\<lambda>body url login reply. ''@'' @ login @ '': '' @ reply),
      NormLogin = map ascii_lower\<rparr>"

definition start :: "string list \<Rightarrow> string list run" where
  "start labels = \<lparr>world = labels, calls = [], logs = []\<rparr>"

definition comment_event :: "string \<Rightarrow> string \<Rightarrow> string list \<Rightarrow> GenericCommentEvent" where
  \<comment> \<open>a new comment by \<open>user\<close> on the open pull request kubernetes/test-infra#5 of \<open>author\<close>\<close>
  "comment_event body user assignees =
     \<lparr>IsPR = True, Action = ''created'', Body = body, HTMLURL = ''<url>'', Number = 5,
      Repo_Owner_Login = ''kubernetes'', Repo_Name = ''test-infra'', User_Login = user,
      IssueAuthor_Login = ''author'', IssueState = ''open'', Assignees = assignees\<rparr>"

definition sync_event :: "bool \<Rightarrow> string \<Rightarrow> PullRequestEvent" where
  "sync_event merged action =
     \<lparr>pe_Action = action,
      pe_PullRequest = \<lparr>Merged = merged, pr_Number = 5, Base_Ref = ''master'',
        Base_Repo_Owner_Login = ''kubernetes'', Base_Repo_Name = ''test-infra''\<rparr>\<rparr>"

definition config :: "string list \<Rightarrow> Configuration" where
  "config skip = \<lparr>Owners_SkipCollaborators = skip\<rparr>"

definition new_calls :: "'w run \<Rightarrow> 'w run \<Rightarrow> call list" where
  \<comment> \<open>the calls made between the states \<open>s\<close> and \<open>s'\<close> of one run\<close>
  "new_calls s s' = drop (length (calls s)) (calls s')"

fun isAddLabel :: "call \<Rightarrow> bool" where
  "isAddLabel (AddLabelCall org repo number label) = True"
| "isAddLabel c = False"

fun isRemoveLabel :: "call \<Rightarrow> bool" where
  "isRemoveLabel (RemoveLabelCall org repo number label) = True"
| "isRemoveLabel c = False"

fun isAssignIssue :: "call \<Rightarrow> bool" where
  "isAssignIssue (AssignIssueCall org repo number logins) = True"
| "isAssignIssue c = False"

fun isIsCollaborator :: "call \<Rightarrow> bool" where
  "isIsCollaborator (IsCollaboratorCall org repo login) = True"
| "isIsCollaborator c = False"

fun cleanup_call :: "call \<Rightarrow> bool" where
  \<comment> \<open>the calls of the clean-up after a label was added\<close>
  "cleanup_call BotNameCall = True"
| "cleanup_call (ListIssueCommentsCall org repo number) = True"
| "cleanup_call (DeleteCommentCall org repo ID) = True"
| "cleanup_call c = False"

fun authorize_call :: "call \<Rightarrow> bool" where
  \<comment> \<open>the calls of the authorization\<close>
  "authorize_call (CreateCommentCall org repo number comment) = True"
| "authorize_call (AssignIssueCall org repo number logins) = True"
| "authorize_call (IsCollaboratorCall org repo login) = True"
| "authorize_call (GetPullRequestCall org repo number) = True"
| "authorize_call (LoadRepoOwnersCall org repo ref) = True"
| "authorize_call (GetPullRequestChangesCall org repo number) = True"
| "authorize_call c = False"

definition label_call :: "call \<Rightarrow> bool" where
  "label_call c \<longleftrightarrow> isAddLabel c \<or> isRemoveLabel c"




section \<open>The patterns, line by line\<close>

lemma take_eq_iff: "take (length v) l = v \<longleftrightarrow> (\<exists>r. l = v @ r)"
  by (metis append_eq_conv_conj append_take_drop_id)

lemma ci_eq_Cons:
  "ci_eq (c # cs) l \<longleftrightarrow> (\<exists>v r. v \<in> set (fold_variants c) \<and> l = v @ r \<and> ci_eq cs r)"
  by (auto simp: list_ex_iff take_eq_iff)

lemma lit_step_iff:
  "q \<in> set (lit_step w (pre, suf)) \<longleftrightarrow>
     (\<exists>u rest. suf = u @ rest \<and> ci_eq w u \<and> q = (rev u @ pre, rest))"
proof (induction w arbitrary: pre suf)
  case Nil
  show ?case by auto
next
  case (Cons c cs)
  have "q \<in> set (lit_step (c # cs) (pre, suf)) \<longleftrightarrow>
        (\<exists>v \<in> set (fold_variants c). take (length v) suf = v \<and>
           q \<in> set (lit_step cs (rev v @ pre, drop (length v) suf)))"
    by (auto split: if_splits)
  also have "\<dots> \<longleftrightarrow>
        (\<exists>v r. v \<in> set (fold_variants c) \<and> suf = v @ r \<and> q \<in> set (lit_step cs (rev v @ pre, r)))"
    by (metis append_eq_conv_conj append_take_drop_id)
  also have "\<dots> \<longleftrightarrow> (\<exists>v r u rest. v \<in> set (fold_variants c) \<and> suf = v @ r \<and>
        r = u @ rest \<and> ci_eq cs u \<and> q = (rev u @ rev v @ pre, rest))"
    unfolding Cons.IH by blast
  also have "\<dots> \<longleftrightarrow> (\<exists>u rest. suf = u @ rest \<and> ci_eq (c # cs) u \<and> q = (rev u @ pre, rest))"
    unfolding ci_eq_Cons
    apply (rule iffI)
     apply (elim exE conjE)
    subgoal for v r u rest
      by (rule exI[of _ "v @ u"], rule exI[of _ rest]) auto
    apply (elim exE conjE)
    subgoal for u rest v r
      by (rule exI[of _ v], rule exI[of _ "r @ rest"], rule exI[of _ r], rule exI[of _ rest]) auto
    done
  finally show ?case .
qed

lemma consumes_Literal: "consumes (Literal w) (ci_eq w)"
  unfolding consumes_def by (simp add: lit_step_iff)

lemma class_step_iff:
  "q \<in> set (step (CharClass cs) (pre, suf)) \<longleftrightarrow>
     (\<exists>x xs. suf = x # xs \<and> x \<in> set cs \<and> q = (x # pre, xs))"
  by (cases suf) auto

lemma star_step_Suc_set:
  "set (star_step f (Suc n) p) =
     insert p (\<Union>q \<in> {q \<in> set (f p). length (snd q) < length (snd p)}. set (star_step f n q))"
  by auto

lemma star_class_iff:
  assumes f: "\<And>q pre suf. q \<in> set (f (pre, suf)) \<longleftrightarrow>
                (\<exists>x xs. suf = x # xs \<and> x \<in> set cs \<and> q = (x # pre, xs))"
  shows "length suf \<le> n \<Longrightarrow>
   q \<in> set (star_step f n (pre, suf)) \<longleftrightarrow>
     (\<exists>u rest. suf = u @ rest \<and> set u \<subseteq> set cs \<and> q = (rev u @ pre, rest))"
proof (induction suf arbitrary: n pre)
  case Nil
  have "f (pre, []) = []"
    using f[of _ pre "[]"] by (cases "f (pre, [])") auto
  then have "set (star_step f n (pre, [])) = {(pre, [])}"
    by (cases n) simp_all
  then show ?case by auto
next
  case (Cons x xs)
  then obtain m where n: "n = Suc m" and len: "length xs \<le> m"
    by (cases n) auto
  have R: "(\<exists>u rest. x # xs = u @ rest \<and> set u \<subseteq> set cs \<and> q = (rev u @ pre, rest)) \<longleftrightarrow>
        q = (pre, x # xs) \<or>
        (x \<in> set cs \<and> (\<exists>u rest. xs = u @ rest \<and> set u \<subseteq> set cs \<and> q = (rev u @ x # pre, rest)))"
    (is "?A \<longleftrightarrow> ?B")
  proof
    assume ?A
    then obtain u rest where h: "x # xs = u @ rest" "set u \<subseteq> set cs" "q = (rev u @ pre, rest)"
      by blast
    show ?B
    proof (cases u)
      case Nil
      then show ?thesis using h by simp
    next
      case (Cons y ys)
      then have "y = x" "xs = ys @ rest" "x \<in> set cs" "set ys \<subseteq> set cs" "q = (rev ys @ x # pre, rest)"
        using h by auto
      then show ?thesis by blast
    qed
  next
    assume ?B
    then show ?A
    proof
      assume "q = (pre, x # xs)"
      then have "x # xs = [] @ (x # xs) \<and> set [] \<subseteq> set cs \<and> q = (rev [] @ pre, x # xs)" by simp
      then show ?A by blast
    next
      assume "x \<in> set cs \<and> (\<exists>u rest. xs = u @ rest \<and> set u \<subseteq> set cs \<and> q = (rev u @ x # pre, rest))"
      then obtain u rest where h: "x \<in> set cs" "xs = u @ rest" "set u \<subseteq> set cs" "q = (rev u @ x # pre, rest)"
        by blast
      then have "x # xs = (x # u) @ rest \<and> set (x # u) \<subseteq> set cs \<and> q = (rev (x # u) @ pre, rest)" by simp
      then show ?A by blast
    qed
  qed
  have "{p \<in> set (f (pre, x # xs)). length (snd p) < length (snd (pre, x # xs))} =
        (if x \<in> set cs then {(x # pre, xs)} else {})"
    using f[of _ pre "x # xs"] by auto
  then have L: "q \<in> set (star_step f (Suc m) (pre, x # xs)) \<longleftrightarrow>
        q = (pre, x # xs) \<or>
        (x \<in> set cs \<and> q \<in> set (star_step f m (x # pre, xs)))"
    unfolding star_step_Suc_set by simp
  show ?case
    unfolding n L R Cons.IH[OF len] ..
qed

lemma consumes_Star_CharClass: "consumes (Star (CharClass cs)) (\<lambda>u. set u \<subseteq> set cs)"
  unfolding consumes_def
proof (intro allI)
  fix pre suf q
  have "step (Star (CharClass cs)) (pre, suf) =
        star_step (step (CharClass cs)) (length suf) (pre, suf)"
    by simp
  then show "q \<in> set (step (Star (CharClass cs)) (pre, suf)) \<longleftrightarrow>
     (\<exists>u rest. suf = u @ rest \<and> set u \<subseteq> set cs \<and> q = (rev u @ pre, rest))"
    using star_class_iff[of "step (CharClass cs)" cs suf "length suf" q pre, OF class_step_iff]
    by simp
qed

lemma consumes_Cat:
  assumes "consumes r1 P1" "consumes r2 P2"
  shows "consumes (Cat r1 r2) (\<lambda>u. \<exists>u1 u2. u = u1 @ u2 \<and> P1 u1 \<and> P2 u2)"
  unfolding consumes_def
proof (intro allI iffI)
  fix pre suf q
  assume "q \<in> set (step (Cat r1 r2) (pre, suf))"
  then obtain p where p: "p \<in> set (step r1 (pre, suf))" and q: "q \<in> set (step r2 p)"
    by auto
  from p assms(1) obtain u1 rest1 where 1: "suf = u1 @ rest1" "P1 u1" "p = (rev u1 @ pre, rest1)"
    unfolding consumes_def by blast
  from q assms(2) 1(3) obtain u2 rest where 2: "rest1 = u2 @ rest" "P2 u2" "q = (rev u2 @ rev u1 @ pre, rest)"
    unfolding consumes_def by blast
  have "suf = (u1 @ u2) @ rest \<and> (\<exists>a b. u1 @ u2 = a @ b \<and> P1 a \<and> P2 b) \<and> q = (rev (u1 @ u2) @ pre, rest)"
    using 1 2 by auto
  then show "\<exists>u rest. suf = u @ rest \<and> (\<exists>u1 u2. u = u1 @ u2 \<and> P1 u1 \<and> P2 u2) \<and> q = (rev u @ pre, rest)"
    by blast
next
  fix pre suf q
  assume "\<exists>u rest. suf = u @ rest \<and> (\<exists>u1 u2. u = u1 @ u2 \<and> P1 u1 \<and> P2 u2) \<and> q = (rev u @ pre, rest)"
  then obtain u1 u2 rest where h: "suf = (u1 @ u2) @ rest" "P1 u1" "P2 u2" "q = (rev (u1 @ u2) @ pre, rest)"
    by blast
  have "suf = u1 @ (u2 @ rest)" using h(1) by simp
  with h(2) assms(1) have p: "(rev u1 @ pre, u2 @ rest) \<in> set (step r1 (pre, suf))"
    unfolding consumes_def by blast
  have "q = (rev u2 @ rev u1 @ pre, rest)" using h(4) by simp
  with h(3) assms(2) have "q \<in> set (step r2 (rev u1 @ pre, u2 @ rest))"
    unfolding consumes_def by blast
  with p show "q \<in> set (step (Cat r1 r2) (pre, suf))"
    by auto
qed

lemma consumes_Quest:
  assumes "consumes r P"
  shows "consumes (Quest r) (\<lambda>u. P u \<or> u = [])"
  unfolding consumes_def
proof (intro allI)
  fix pre suf q
  have "q \<in> set (step (Quest r) (pre, suf)) \<longleftrightarrow> q \<in> set (step r (pre, suf)) \<or> q = (pre, suf)"
    by auto
  also have "\<dots> \<longleftrightarrow> (\<exists>u rest. suf = u @ rest \<and> P u \<and> q = (rev u @ pre, rest)) \<or> q = (pre, suf)"
    using assms unfolding consumes_def by blast
  also have "\<dots> \<longleftrightarrow> (\<exists>u rest. suf = u @ rest \<and> (P u \<or> u = []) \<and> q = (rev u @ pre, rest))"
    by auto
  finally show "q \<in> set (step (Quest r) (pre, suf)) \<longleftrightarrow>
     (\<exists>u rest. suf = u @ rest \<and> (P u \<or> u = []) \<and> q = (rev u @ pre, rest))" .
qed

lemma split_lines_unfold:
  "split_lines s = takeWhile (\<lambda>c. c \<noteq> newline) s #
     (case dropWhile (\<lambda>c. c \<noteq> newline) s of [] \<Rightarrow> [] | x # r \<Rightarrow> split_lines r)"
  by (induction s) simp_all

lemma split_lines_hd:
  "split_lines s = takeWhile (\<lambda>c. c \<noteq> newline) s # tl (split_lines s)"
  using split_lines_unfold[of s] by simp

lemma split_lines_first:
  assumes "newline \<notin> set l" "b = [] \<or> hd b = newline"
  shows "l \<in> set (split_lines (l @ b))"
proof -
  have "takeWhile (\<lambda>c. c \<noteq> newline) (l @ b) = l @ takeWhile (\<lambda>c. c \<noteq> newline) b"
    using assms(1) by (intro takeWhile_append2) auto
  moreover have "takeWhile (\<lambda>c. c \<noteq> newline) b = []"
    using assms(2) by (cases b) auto
  ultimately have "takeWhile (\<lambda>c. c \<noteq> newline) (l @ b) = l"
    by simp
  then show ?thesis
    by (subst split_lines_unfold) simp
qed

lemma split_lines_after:
  "set (split_lines b) \<subseteq> set (tl (split_lines (a @ newline # b)))"
proof (induction a)
  case Nil
  show ?case by simp
next
  case (Cons c a)
  show ?case
  proof (cases "c = newline")
    case True
    have "set (tl (split_lines (a @ newline # b))) \<subseteq> set (split_lines (a @ newline # b))"
      by (cases "split_lines (a @ newline # b)") auto
    with Cons True show ?thesis by auto
  next
    case False
    with Cons show ?thesis
      by (cases "split_lines (a @ newline # b)") auto
  qed
qed

lemma split_lines_tl_decomp:
  "l \<in> set (tl (split_lines s)) \<Longrightarrow>
     \<exists>a b. s = a @ newline # l @ b \<and> newline \<notin> set l \<and> (b = [] \<or> hd b = newline)"
proof (induction s)
  case Nil
  then show ?case by simp
next
  case (Cons c cs)
  show ?case
  proof (cases "c = newline")
    case True
    then have mem: "l \<in> set (split_lines cs)" using Cons.prems by simp
    from mem split_lines_hd[of cs] have "l = takeWhile (\<lambda>c. c \<noteq> newline) cs \<or> l \<in> set (tl (split_lines cs))"
      by (metis set_ConsD)
    then show ?thesis
    proof
      assume l: "l = takeWhile (\<lambda>c. c \<noteq> newline) cs"
      let ?b = "dropWhile (\<lambda>c. c \<noteq> newline) cs"
      have "c # cs = [] @ newline # l @ ?b" using True l by simp
      moreover have "newline \<notin> set l" using l by (auto dest: set_takeWhileD)
      moreover have "?b = [] \<or> hd ?b = newline"
        using hd_dropWhile[of "\<lambda>c. c \<noteq> newline" cs] by auto
      ultimately show ?thesis by blast
    next
      assume "l \<in> set (tl (split_lines cs))"
      from Cons.IH[OF this] obtain a b where
        "cs = a @ newline # l @ b" "newline \<notin> set l" "b = [] \<or> hd b = newline" by blast
      then have "c # cs = (c # a) @ newline # l @ b \<and> newline \<notin> set l \<and> (b = [] \<or> hd b = newline)"
        by simp
      then show ?thesis by blast
    qed
  next
    case False
    then have "l \<in> set (tl (split_lines cs))"
      using Cons.prems by (cases "split_lines cs") auto
    from Cons.IH[OF this] obtain a b where
      "cs = a @ newline # l @ b" "newline \<notin> set l" "b = [] \<or> hd b = newline" by blast
    then have "c # cs = (c # a) @ newline # l @ b \<and> newline \<notin> set l \<and> (b = [] \<or> hd b = newline)"
      by simp
    then show ?thesis by blast
  qed
qed

lemma split_lines_iff:
  "l \<in> set (split_lines s) \<longleftrightarrow>
     (\<exists>a b. s = a @ l @ b \<and> newline \<notin> set l \<and>
            (a = [] \<or> last a = newline) \<and> (b = [] \<or> hd b = newline))"
  (is "?L \<longleftrightarrow> ?R")
proof
  assume ?L
  from \<open>?L\<close> split_lines_hd[of s] have "l = takeWhile (\<lambda>c. c \<noteq> newline) s \<or> l \<in> set (tl (split_lines s))"
    by (metis set_ConsD)
  then show ?R
  proof
    assume l: "l = takeWhile (\<lambda>c. c \<noteq> newline) s"
    let ?b = "dropWhile (\<lambda>c. c \<noteq> newline) s"
    have "s = [] @ l @ ?b" using l by simp
    moreover have "newline \<notin> set l" using l by (auto dest: set_takeWhileD)
    moreover have "?b = [] \<or> hd ?b = newline"
      using hd_dropWhile[of "\<lambda>c. c \<noteq> newline" s] by auto
    ultimately show ?R by blast
  next
    assume "l \<in> set (tl (split_lines s))"
    from split_lines_tl_decomp[OF this] obtain a b where
      h: "s = a @ newline # l @ b" "newline \<notin> set l" "b = [] \<or> hd b = newline" by blast
    have "s = (a @ [newline]) @ l @ b \<and> newline \<notin> set l \<and>
          (a @ [newline] = [] \<or> last (a @ [newline]) = newline) \<and> (b = [] \<or> hd b = newline)"
      using h by simp
    then show ?R by blast
  qed
next
  assume ?R
  then obtain a b where h: "s = a @ l @ b" "newline \<notin> set l"
    "a = [] \<or> last a = newline" "b = [] \<or> hd b = newline" by blast
  have first: "l \<in> set (split_lines (l @ b))"
    using split_lines_first[OF h(2) h(4)] .
  show ?L
  proof (cases "a = []")
    case True
    then show ?thesis using first h(1) by simp
  next
    case False
    then have a: "a = butlast a @ [newline]" using h(3)
      by (metis append_butlast_last_id)
    have "set (split_lines (l @ b)) \<subseteq> set (tl (split_lines (butlast a @ newline # (l @ b))))"
      by (rule split_lines_after)
    moreover have "butlast a @ newline # (l @ b) = s"
      using h(1) a by (metis append.assoc append_Cons append_Nil)
    ultimately have "l \<in> set (tl (split_lines s))" using first by auto
    then show ?thesis by (cases "split_lines s") auto
  qed
qed

lemma trim_right_append:
  assumes "u \<noteq> []" "last u \<notin> set perl_space" "set w \<subseteq> set perl_space"
  shows "trim_right (u @ w) = u"
proof -
  have "dropWhile (\<lambda>c. c \<in> set perl_space) (rev w @ rev u) =
        dropWhile (\<lambda>c. c \<in> set perl_space) (rev u)"
    using assms(3) by (intro dropWhile_append2) auto
  moreover have "dropWhile (\<lambda>c. c \<in> set perl_space) (rev u) = rev u"
    using assms(1,2) by (cases "rev u") (auto simp: last_rev[symmetric] hd_rev)
  ultimately show ?thesis by (simp add: trim_right_def)
qed

lemma trim_right_decomp:
  "\<exists>w. l = trim_right l @ w \<and> set w \<subseteq> set perl_space"
proof -
  let ?w = "rev (takeWhile (\<lambda>c. c \<in> set perl_space) (rev l))"
  have "l = trim_right l @ ?w"
    unfolding trim_right_def by (metis rev_append rev_rev_ident takeWhile_dropWhile_id)
  moreover have "set ?w \<subseteq> set perl_space"
    by (auto dest: set_takeWhileD)
  ultimately show ?thesis by blast
qed

lemma MatchString_iff:
  "MatchString re s \<longleftrightarrow> (\<exists>a b. s = a @ b \<and> step re (rev a, b) \<noteq> [])"
proof
  assume "MatchString re s"
  then obtain i where "step re (rev (take i s), drop i s) \<noteq> []"
    unfolding MatchString_def list_ex_iff by blast
  moreover have "s = take i s @ drop i s" by simp
  ultimately show "\<exists>a b. s = a @ b \<and> step re (rev a, b) \<noteq> []" by blast
next
  assume "\<exists>a b. s = a @ b \<and> step re (rev a, b) \<noteq> []"
  then obtain a b where h: "s = a @ b" "step re (rev a, b) \<noteq> []" by blast
  then have "step re (rev (take (length a) s), drop (length a) s) \<noteq> []" by simp
  moreover have "length a \<in> set [0 ..< Suc (length s)]" using h(1) by simp
  ultimately show "MatchString re s"
    unfolding MatchString_def list_ex_iff by blast
qed

lemma step_BeginLine_Cat:
  "step (Cat BeginLine r) (pre, suf) =
     (if pre = [] \<or> hd pre = newline then step r (pre, suf) else [])"
  by (cases pre) auto

lemma step_EndLine_nonempty:
  "step EndLine (pre, suf) \<noteq> [] \<longleftrightarrow> suf = [] \<or> hd suf = newline"
  by (cases suf) auto

lemma step_Cat_nonempty:
  "step (Cat r1 r2) p \<noteq> [] \<longleftrightarrow> (\<exists>q \<in> set (step r1 p). step r2 q \<noteq> [])"
  by auto

lemma anchored_step_iff:
  assumes X: "consumes X P"
  shows "step (Cat BeginLine (Cat X (Cat (Star (CharClass perl_space)) EndLine))) (rev a, b) \<noteq> [] \<longleftrightarrow>
     (a = [] \<or> last a = newline) \<and>
     (\<exists>u w r. b = u @ w @ r \<and> P u \<and> set w \<subseteq> set perl_space \<and> (r = [] \<or> hd r = newline))"
  (is "?L \<longleftrightarrow> ?bol \<and> ?R")
proof -
  have bol: "(rev a = [] \<or> hd (rev a) = newline) \<longleftrightarrow> ?bol"
    by (cases "a = []") (auto simp: hd_rev)
  have S: "consumes (Star (CharClass perl_space)) (\<lambda>u. set u \<subseteq> set perl_space)"
    by (rule consumes_Star_CharClass)
  have "step (Cat X (Cat (Star (CharClass perl_space)) EndLine)) (rev a, b) \<noteq> [] \<longleftrightarrow>
      (\<exists>q1 \<in> set (step X (rev a, b)). \<exists>q2 \<in> set (step (Star (CharClass perl_space)) q1).
          step EndLine q2 \<noteq> [])"
    unfolding step_Cat_nonempty ..
  also have "\<dots> \<longleftrightarrow> ?R"
  proof
    assume "\<exists>q1 \<in> set (step X (rev a, b)). \<exists>q2 \<in> set (step (Star (CharClass perl_space)) q1).
          step EndLine q2 \<noteq> []"
    then obtain q1 q2 where q: "q1 \<in> set (step X (rev a, b))"
      "q2 \<in> set (step (Star (CharClass perl_space)) q1)" "step EndLine q2 \<noteq> []" by blast
    from q(1) X obtain u rest where 1: "b = u @ rest" "P u" "q1 = (rev u @ rev a, rest)"
      unfolding consumes_def by blast
    from q(2) S 1(3) obtain w r where 2: "rest = w @ r" "set w \<subseteq> set perl_space"
      "q2 = (rev w @ rev u @ rev a, r)"
      unfolding consumes_def by blast
    from q(3) 2(3) have "r = [] \<or> hd r = newline"
      using step_EndLine_nonempty[of "rev w @ rev u @ rev a" r] by blast
    with 1 2 show ?R by blast
  next
    assume ?R
    then obtain u w r where h: "b = u @ w @ r" "P u" "set w \<subseteq> set perl_space"
      "r = [] \<or> hd r = newline" by blast
    have "(rev u @ rev a, w @ r) \<in> set (step X (rev a, b))"
      using X h(1,2) unfolding consumes_def by blast
    moreover have "(rev w @ rev u @ rev a, r) \<in> set (step (Star (CharClass perl_space)) (rev u @ rev a, w @ r))"
      using S h(3) unfolding consumes_def by blast
    moreover have "step EndLine (rev w @ rev u @ rev a, r) \<noteq> []"
      using h(4) step_EndLine_nonempty[of "rev w @ rev u @ rev a" r] by blast
    ultimately show "\<exists>q1 \<in> set (step X (rev a, b)). \<exists>q2 \<in> set (step (Star (CharClass perl_space)) q1).
          step EndLine q2 \<noteq> []" by blast
  qed
  finally show ?thesis
    unfolding step_BeginLine_Cat bol by auto
qed

lemma anchored_match_iff:
  assumes X: "consumes X P"
    and P_nl: "\<And>u. P u \<Longrightarrow> newline \<notin> set u"
    and P_end: "\<And>u. P u \<Longrightarrow> u \<noteq> [] \<and> last u \<notin> set perl_space"
  shows "MatchString (Cat BeginLine (Cat X (Cat (Star (CharClass perl_space)) EndLine))) s \<longleftrightarrow>
     (\<exists>l \<in> set (split_lines s). P (trim_right l))"
  (is "?L \<longleftrightarrow> ?R")
proof
  assume ?L
  then obtain a u w r where h: "s = a @ u @ w @ r" "a = [] \<or> last a = newline"
    "P u" "set w \<subseteq> set perl_space" "r = [] \<or> hd r = newline"
    unfolding MatchString_iff anchored_step_iff[OF X] by blast
  let ?w1 = "takeWhile (\<lambda>c. c \<noteq> newline) w"
  let ?w2 = "dropWhile (\<lambda>c. c \<noteq> newline) w"
  have w: "w = ?w1 @ ?w2" by simp
  have s: "s = a @ (u @ ?w1) @ (?w2 @ r)" using h(1) by simp
  have nl: "newline \<notin> set (u @ ?w1)"
    using P_nl[OF h(3)] by (auto dest: set_takeWhileD)
  have eol: "?w2 @ r = [] \<or> hd (?w2 @ r) = newline"
  proof (cases "?w2 = []")
    case True
    show ?thesis unfolding True using h(5) by simp
  next
    case False
    then have "hd ?w2 = newline" using hd_dropWhile[of "\<lambda>c. c \<noteq> newline" w] by auto
    then show ?thesis using False by simp
  qed
  have mem: "u @ ?w1 \<in> set (split_lines s)"
    unfolding split_lines_iff using s nl h(2) eol by blast
  have "set ?w1 \<subseteq> set perl_space" using h(4) by (auto dest: set_takeWhileD)
  then have "trim_right (u @ ?w1) = u"
    using P_end[OF h(3)] by (intro trim_right_append) auto
  with h(3) have "P (trim_right (u @ ?w1))" by simp
  with mem show ?R by (rule bexI[rotated])
next
  assume ?R
  then obtain l where l: "l \<in> set (split_lines s)" "P (trim_right l)" by blast
  from l(1) obtain a b where h: "s = a @ l @ b" "a = [] \<or> last a = newline" "b = [] \<or> hd b = newline"
    unfolding split_lines_iff by blast
  from trim_right_decomp[of l] obtain w where w: "l = trim_right l @ w" "set w \<subseteq> set perl_space"
    by blast
  have "s = a @ (trim_right l @ w @ b)" using h(1) w(1) by (metis append.assoc)
  moreover have "\<exists>u w' r. trim_right l @ w @ b = u @ w' @ r \<and> P u \<and> set w' \<subseteq> set perl_space \<and>
      (r = [] \<or> hd r = newline)"
    using l(2) w(2) h(3) by blast
  ultimately show ?L
    unfolding MatchString_iff anchored_step_iff[OF X] using h(2) by blast
qed

lemma ci_eq_append:
  "ci_eq (a @ b) t \<longleftrightarrow> (\<exists>u v. t = u @ v \<and> ci_eq a u \<and> ci_eq b v)"
proof (induction a arbitrary: t)
  case Nil
  show ?case by simp
next
  case (Cons c a)
  show ?case (is "?L \<longleftrightarrow> ?R")
  proof
    assume ?L
    then obtain v r where 1: "v \<in> set (fold_variants c)" "t = v @ r" "ci_eq (a @ b) r"
      unfolding append_Cons ci_eq_Cons by blast
    from 1(3) obtain u1 v1 where 2: "r = u1 @ v1" "ci_eq a u1" "ci_eq b v1"
      unfolding Cons.IH by blast
    have "ci_eq (c # a) (v @ u1)" unfolding ci_eq_Cons using 1(1) 2(2) by blast
    moreover have "t = (v @ u1) @ v1" using 1(2) 2(1) by simp
    ultimately show ?R using 2(3) by blast
  next
    assume ?R
    then obtain u v where 1: "t = u @ v" "ci_eq (c # a) u" "ci_eq b v" by blast
    from 1(2) obtain x r where 2: "x \<in> set (fold_variants c)" "u = x @ r" "ci_eq a r"
      unfolding ci_eq_Cons by blast
    have "ci_eq (a @ b) (r @ v)" unfolding Cons.IH using 2(3) 1(3) by blast
    moreover have "t = x @ (r @ v)" using 1(1) 2(2) by simp
    ultimately show ?L unfolding append_Cons ci_eq_Cons using 2(1) by blast
  qed
qed

lemma fold_variants_nonempty: "v \<in> set (fold_variants c) \<Longrightarrow> v \<noteq> []"
  by (auto simp: fold_variants_def split: option.splits if_splits)

lemma fold_variants_space:
  assumes "v \<in> set (fold_variants c)" "x \<in> set v" "x \<in> set perl_space"
  shows "x = c"
proof -
  have up: "map_of lower_upper c = Some u \<Longrightarrow> u \<notin> set perl_space" for u
    by (drule map_of_SomeD) (auto simp: lower_upper_def perl_space_def)
  have lo: "map_of (map prod.swap lower_upper) c = Some u \<Longrightarrow> u \<notin> set perl_space" for u
    by (drule map_of_SomeD) (auto simp: lower_upper_def perl_space_def)
  have "v = [c] \<or> (\<exists>u. map_of lower_upper c = Some u \<and> v = [u]) \<or>
        (\<exists>u. map_of (map prod.swap lower_upper) c = Some u \<and> v = [u]) \<or>
        v = [CHR 0xC5, CHR 0xBF] \<or> v = [CHR 0xE2, CHR 0x84, CHR 0xAA]"
    using assms(1) unfolding fold_variants_def
    by (auto split: option.splits if_splits)
  then show ?thesis
    using assms(2,3) up lo by (auto simp: perl_space_def)
qed

lemma ci_eq_space:
  "ci_eq w u \<Longrightarrow> x \<in> set u \<Longrightarrow> x \<in> set perl_space \<Longrightarrow> x \<in> set w"
proof (induction w arbitrary: u)
  case Nil
  then show ?case by simp
next
  case (Cons c w)
  from Cons.prems(1) obtain v r where h: "v \<in> set (fold_variants c)" "u = v @ r" "ci_eq w r"
    unfolding ci_eq_Cons by blast
  from Cons.prems(2) h(2) have "x \<in> set v \<or> x \<in> set r" by auto
  then show ?case
  proof
    assume "x \<in> set v"
    then show ?thesis using fold_variants_space[OF h(1) _ Cons.prems(3)] by simp
  next
    assume "x \<in> set r"
    then show ?thesis using Cons.IH[OF h(3) _ Cons.prems(3)] by simp
  qed
qed

lemma ci_eq_last:
  assumes "ci_eq (w @ [c]) u" "c \<notin> set perl_space"
  shows "u \<noteq> [] \<and> last u \<notin> set perl_space"
proof -
  from assms(1) obtain u1 v where h: "u = u1 @ v" "ci_eq w u1" "ci_eq [c] v"
    unfolding ci_eq_append by blast
  from h(3) have v: "v \<in> set (fold_variants c)"
    unfolding ci_eq_Cons by auto
  then have ne: "v \<noteq> []" by (rule fold_variants_nonempty)
  then have "last v \<in> set v" by simp
  then have "last v \<notin> set perl_space"
    using fold_variants_space[OF v] assms(2) by blast
  then show ?thesis using h(1) ne by simp
qed

lemma newline_space: "newline \<in> set perl_space"
  by (simp add: newline_def perl_space_def)

lemma lgtmRe_iff:
  "MatchString lgtmRe s \<longleftrightarrow> (\<exists>l \<in> set (split_lines s). approve_line l)"
proof -
  let ?P = "\<lambda>u. ci_eq ''/lgtm'' u \<or> ci_eq ''/lgtm no-issue'' u"
  have split: "ci_eq ''/lgtm no-issue'' u \<longleftrightarrow>
      (\<exists>u1 u2. u = u1 @ u2 \<and> ci_eq ''/lgtm'' u1 \<and> ci_eq '' no-issue'' u2)" for u
    using ci_eq_append[of "''/lgtm''" "'' no-issue''" u] by simp
  have "(\<lambda>u. \<exists>u1 u2. u = u1 @ u2 \<and> ci_eq ''/lgtm'' u1 \<and> (ci_eq '' no-issue'' u2 \<or> u2 = [])) = ?P"
  proof (rule ext)
    fix u
    show "(\<exists>u1 u2. u = u1 @ u2 \<and> ci_eq ''/lgtm'' u1 \<and> (ci_eq '' no-issue'' u2 \<or> u2 = [])) \<longleftrightarrow> ?P u"
      unfolding split by auto
  qed
  then have X: "consumes (Cat (Literal ''/lgtm'') (Quest (Literal '' no-issue''))) ?P"
    using consumes_Cat[OF consumes_Literal consumes_Quest[OF consumes_Literal],
        of "''/lgtm''" "'' no-issue''"] by simp
  have nl: "newline \<notin> set u" if "?P u" for u
  proof
    assume "newline \<in> set u"
    with that have "newline \<in> set ''/lgtm'' \<or> newline \<in> set ''/lgtm no-issue''"
      using ci_eq_space[OF _ _ newline_space] by blast
    then show False by (simp add: newline_def)
  qed
  have e1: "u \<noteq> [] \<and> last u \<notin> set perl_space" if "ci_eq ''/lgtm'' u" for u
    using ci_eq_last[of "''/lgt''" "CHR ''m''" u] that by (simp add: perl_space_def)
  have e2: "u \<noteq> [] \<and> last u \<notin> set perl_space" if "ci_eq ''/lgtm no-issue'' u" for u
    using ci_eq_last[of "''/lgtm no-issu''" "CHR ''e''" u] that by (simp add: perl_space_def)
  have "MatchString lgtmRe s \<longleftrightarrow> (\<exists>l \<in> set (split_lines s). ?P (trim_right l))"
    unfolding lgtmRe_def
    by (rule anchored_match_iff[OF X]) (use nl e1 e2 in blast)+
  then show ?thesis by (simp add: approve_line_def)
qed

lemma lgtmCancelRe_iff:
  "MatchString lgtmCancelRe s \<longleftrightarrow> (\<exists>l \<in> set (split_lines s). cancel_line l)"
proof -
  have nl: "newline \<notin> set u" if "ci_eq ''/lgtm cancel'' u" for u
  proof
    assume "newline \<in> set u"
    with that have "newline \<in> set ''/lgtm cancel''"
      using ci_eq_space[OF _ _ newline_space] by blast
    then show False by (simp add: newline_def)
  qed
  have e: "u \<noteq> [] \<and> last u \<notin> set perl_space" if "ci_eq ''/lgtm cancel'' u" for u
    using ci_eq_last[of "''/lgtm cance''" "CHR ''l''" u] that by (simp add: perl_space_def)
  have "MatchString lgtmCancelRe s \<longleftrightarrow> (\<exists>l \<in> set (split_lines s). ci_eq ''/lgtm cancel'' (trim_right l))"
    unfolding lgtmCancelRe_def
    by (rule anchored_match_iff[OF consumes_Literal]) (use nl e in blast)+
  then show ?thesis by (simp add: cancel_line_def)
qed


lemma ci_eq_hd:
  assumes "ci_eq (c # cs) t" "\<forall>v \<in> set (fold_variants c). length v = 1"
  shows "t \<noteq> [] \<and> [hd t] \<in> set (fold_variants c) \<and> ci_eq cs (tl t)"
proof -
  from assms(1) obtain v r where h: "v \<in> set (fold_variants c)" "t = v @ r" "ci_eq cs r"
    unfolding ci_eq_Cons by blast
  from h(1) assms(2) have "length v = 1" by blast
  then obtain x where "v = [x]" by (cases v) auto
  with h show ?thesis by auto
qed

lemma ci_eq_simple_prefix:
  assumes "\<forall>c \<in> set p. \<forall>v \<in> set (fold_variants c). length v = 1" "ci_eq (p @ w) t"
  shows "length p \<le> length t \<and> ci_eq w (drop (length p) t)"
  using assms
proof (induction p arbitrary: t)
  case Nil
  then show ?case by simp
next
  case (Cons c p)
  from Cons.prems have 1: "t \<noteq> [] \<and> ci_eq (p @ w) (tl t)"
    using ci_eq_hd[of c "p @ w" t] by (simp del: ci_eq.simps)
  then have "length p \<le> length (tl t) \<and> ci_eq w (drop (length p) (tl t))"
    using Cons.IH[of "tl t"] Cons.prems(1) by (simp del: ci_eq.simps)
  with 1 show ?case by (cases t) (simp_all del: ci_eq.simps)
qed

lemma simple_lgtm: "\<forall>c \<in> set ''/lgtm ''. \<forall>v \<in> set (fold_variants c). length v = 1"
  by (simp add: fold_variants_def lower_upper_def)

lemma line_exclusive: "\<not> (approve_line l \<and> cancel_line l)"
proof
  assume a: "approve_line l \<and> cancel_line l"
  let ?t = "trim_right l"
  from a have c: "ci_eq (''/lgtm '' @ ''cancel'') ?t" by (simp add: cancel_line_def del: ci_eq.simps)
  from ci_eq_simple_prefix[OF simple_lgtm c]
  have c': "length ''/lgtm '' \<le> length ?t" "ci_eq ''cancel'' (drop (length ''/lgtm '') ?t)" by blast+
  from a have "ci_eq ''/lgtm'' ?t \<or> ci_eq ''/lgtm no-issue'' ?t"
    by (simp add: approve_line_def del: ci_eq.simps)
  then show False
  proof
    assume "ci_eq ''/lgtm'' ?t"
    then have "ci_eq (''/lgtm'' @ []) ?t" by (simp del: ci_eq.simps)
    then have "ci_eq [] (drop (length ''/lgtm'') ?t)"
      using simple_lgtm by (intro conjunct2[OF ci_eq_simple_prefix]) auto
    then have "length ?t \<le> 5" by simp
    with c'(1) show False by simp
  next
    assume "ci_eq ''/lgtm no-issue'' ?t"
    then have "ci_eq (''/lgtm '' @ ''no-issue'') ?t" by (simp del: ci_eq.simps)
    from ci_eq_simple_prefix[OF simple_lgtm this]
    have n: "ci_eq ''no-issue'' (drop (length ''/lgtm '') ?t)" by blast
    have "[hd (drop (length ''/lgtm '') ?t)] \<in> set (fold_variants CHR ''n'')"
      using ci_eq_hd[OF n] by (simp add: fold_variants_def lower_upper_def)
    moreover have "[hd (drop (length ''/lgtm '') ?t)] \<in> set (fold_variants CHR ''c'')"
      using ci_eq_hd[OF c'(2)] by (simp add: fold_variants_def lower_upper_def)
    ultimately show False by (auto simp: fold_variants_def lower_upper_def)
  qed
qed

lemma split_lines_single: "newline \<notin> set s \<Longrightarrow> split_lines s = [s]"
  by (induction s) auto

subsection \<open>Evaluating the line predicates on a given body\<close>

lemma ci_eq_if:
  "ci_eq (c # cs) l =
     list_ex (\<lambda>v. if take (length v) l = v then ci_eq cs (drop (length v) l) else False)
             (fold_variants c)"
  by (auto simp: list_ex_iff)

declare ci_eq.simps(2) [simp del]

lemmas line_eval = approve_line_def cancel_line_def trim_right_def perl_space_def
  fold_variants_def lower_upper_def newline_def ci_eq_if

lemma wantLGTM_of_eq:
  "wantLGTM_of body =
     (if list_ex approve_line (split_lines body) then Some True
      else if list_ex cancel_line (split_lines body) then Some False
      else None)"
  unfolding wantLGTM_of_def lgtmRe_iff lgtmCancelRe_iff list_ex_iff ..


section \<open>Runs of the handlers\<close>

lemma invoke_eq:
  "invoke c f s = (fst (f (world s)), s\<lparr>world := snd (f (world s)), calls := calls s @ [c]\<rparr>)"
  by (simp add: invoke_def split: prod.splits)

lemma new_calls_append [simp]: "calls s' = calls s @ xs \<Longrightarrow> new_calls s s' = xs"
  by (simp add: new_calls_def)

lemma new_calls_self [simp]: "new_calls s s = []"
  by (simp add: new_calls_def)

lemmas scenario = comment_event_def sync_event_def config_def start_def fake_client_def
  fake_owners_def fake_pkg_def GenericCommentActionCreated_def PullRequestActionSynchronize_def
  lgtmLabel_def hasLGTM_of_def isAssignee_def skipCollaborators_def


section \<open>What the patterns recognize\<close>

text \<open>
  C1, as the code has it. The flag \<open>wantLGTM\<close> is set by the first pattern alone: a body
  asks for approval exactly if one of its lines, without its trailing white space, is
  \<open>/lgtm\<close> or \<open>/lgtm no-issue\<close> in any case of the letters, whether or not another line
  is \<open>/lgtm cancel\<close>. It asks for cancellation exactly if no line asks for approval and
  some line is \<open>/lgtm cancel\<close>. With neither kind of line the handler returns success
  and leaves the platform, the list of calls and the log as they were. White space is the
  class \<open>\s\<close> of the patterns, and the case of a letter is what the flag \<open>i\<close> takes it
  to be (\<^const>\<open>fold_variants\<close>).
\<close>

theorem wantLGTM_of_lines:
  "wantLGTM_of (Body e) =
     (if list_ex approve_line (split_lines (Body e)) then Some True
      else if list_ex cancel_line (split_lines (Body e)) then Some False
      else None) \<and>
   (\<not> list_ex approve_line (split_lines (Body e)) \<and>
    \<not> list_ex cancel_line (split_lines (Body e)) \<longrightarrow>
      handle pkg gc cfg ownersClient e s = (None, s))"
proof -
  have "handle pkg gc cfg ownersClient e s = (None, s)" if "wantLGTM_of (Body e) = None"
    using that by (simp add: handle_def)
  with wantLGTM_of_eq[of "Body e"] show ?thesis by simp
qed

text \<open>
  Three bodies: an approval among other lines and in capitals, a cancellation, and a
  sentence that only mentions the command.
\<close>

theorem wantLGTM_of_lines_witness:
  "wantLGTM_of ''LGTM\<newline>/LGTM no-Issue  \<newline>thanks'' = Some True \<and>
   wantLGTM_of ''/lgtm cancel\<newline>thanks'' = Some False \<and>
   handle fake_pkg fake_client (config []) fake_owners
     (comment_event ''I would not /lgtm this'' ''bob'' []) (start []) = (None, start [])"
proof -
  have "wantLGTM_of ''LGTM\<newline>/LGTM no-Issue  \<newline>thanks'' = Some True"
    using wantLGTM_of_lines
      [of "comment_event ''LGTM\<newline>/LGTM no-Issue  \<newline>thanks'' ''bob'' []"]
    by (simp add: comment_event_def line_eval)
  moreover have "wantLGTM_of ''/lgtm cancel\<newline>thanks'' = Some False"
    using wantLGTM_of_lines [of "comment_event ''/lgtm cancel\<newline>thanks'' ''bob'' []"]
    by (simp add: comment_event_def line_eval)
  moreover have "handle fake_pkg fake_client (config []) fake_owners
     (comment_event ''I would not /lgtm this'' ''bob'' []) (start []) = (None, start [])"
    using wantLGTM_of_lines
      [where e = "comment_event ''I would not /lgtm this'' ''bob'' []" and s = "start []"
         and pkg = fake_pkg and gc = fake_client and cfg = "config []"
         and ownersClient = fake_owners]
    by (simp add: comment_event_def line_eval)
  ultimately show ?thesis by blast
qed

text \<open>
  C1 as stated fails on a body with both commands: its second line is \<open>/lgtm cancel\<close>,
  and the flag asks for approval.
\<close>

theorem wantLGTM_of_both_commands:
  "cancel_line ''/lgtm cancel'' \<and>
   ''/lgtm cancel'' \<in> set (split_lines ''/lgtm\<newline>/lgtm cancel'') \<and>
   wantLGTM_of ''/lgtm\<newline>/lgtm cancel'' = Some True"
  by (simp add: wantLGTM_of_eq line_eval)

text \<open>
  C2, as the code has it. Both patterns match a body exactly if one of its lines is an
  approval and one of its lines is a cancellation. No line is both, so these are two
  different lines, and a body of one line is matched by at most one pattern. Where both
  patterns match, the flag asks for approval.
\<close>

theorem both_match_iff:
  "(MatchString lgtmRe body \<and> MatchString lgtmCancelRe body \<longleftrightarrow>
      list_ex approve_line (split_lines body) \<and> list_ex cancel_line (split_lines body)) \<and>
   \<not> (approve_line l \<and> cancel_line l) \<and>
   (MatchString lgtmRe body \<and> MatchString lgtmCancelRe body \<longrightarrow>
      wantLGTM_of body = Some True) \<and>
   (newline \<notin> set body \<longrightarrow>
      \<not> (MatchString lgtmRe body \<and> MatchString lgtmCancelRe body))"
proof (intro conjI)
  show "MatchString lgtmRe body \<and> MatchString lgtmCancelRe body \<longleftrightarrow>
      list_ex approve_line (split_lines body) \<and> list_ex cancel_line (split_lines body)"
    unfolding lgtmRe_iff lgtmCancelRe_iff list_ex_iff ..
  show "\<not> (approve_line l \<and> cancel_line l)" by (rule line_exclusive)
  show "MatchString lgtmRe body \<and> MatchString lgtmCancelRe body \<longrightarrow>
      wantLGTM_of body = Some True"
    by (simp add: wantLGTM_of_def)
  show "newline \<notin> set body \<longrightarrow>
      \<not> (MatchString lgtmRe body \<and> MatchString lgtmCancelRe body)"
    unfolding lgtmRe_iff lgtmCancelRe_iff
    by (simp add: split_lines_single line_exclusive)
qed

theorem both_match_iff_witness:
  "\<not> (MatchString lgtmRe ''/lgtm cancel\<newline>thanks'' \<and>
      MatchString lgtmCancelRe ''/lgtm cancel\<newline>thanks'') \<and>
   \<not> (MatchString lgtmRe ''/LGTM'' \<and> MatchString lgtmCancelRe ''/LGTM'') \<and>
   wantLGTM_of ''/lgtm cancel\<newline>/lgtm'' = Some True"
proof -
  have 1: "\<not> (MatchString lgtmRe ''/lgtm cancel\<newline>thanks'' \<and>
      MatchString lgtmCancelRe ''/lgtm cancel\<newline>thanks'')"
    using both_match_iff [where body = "''/lgtm cancel\<newline>thanks''", THEN conjunct1]
    by (simp add: line_eval)
  have 2: "\<not> (MatchString lgtmRe ''/LGTM'' \<and> MatchString lgtmCancelRe ''/LGTM'')"
    using both_match_iff [where body = "''/LGTM''", THEN conjunct2, THEN conjunct2, THEN conjunct2]
    by (simp add: newline_def)
  have "MatchString lgtmRe ''/lgtm cancel\<newline>/lgtm'' \<and>
      MatchString lgtmCancelRe ''/lgtm cancel\<newline>/lgtm''"
    using both_match_iff [where body = "''/lgtm cancel\<newline>/lgtm''", THEN conjunct1]
    by (simp add: line_eval)
  then have 3: "wantLGTM_of ''/lgtm cancel\<newline>/lgtm'' = Some True"
    using both_match_iff [where body = "''/lgtm cancel\<newline>/lgtm''",
        THEN conjunct2, THEN conjunct2, THEN conjunct1]
    by blast
  from 1 2 3 show ?thesis by blast
qed

text \<open>
  C2 as stated fails on a body of two lines, one for each command: both patterns match it.
\<close>

theorem both_patterns_match:
  "MatchString lgtmRe ''/lgtm\<newline>/lgtm cancel'' \<and>
   MatchString lgtmCancelRe ''/lgtm\<newline>/lgtm cancel''"
  unfolding lgtmRe_iff lgtmCancelRe_iff
  by (simp add: line_eval)


section \<open>The comment handler\<close>

text \<open>
  C3. Let the body of a comment ask for approval and let its writer be the author. If
  the event is a new comment on an open pull request, the handler makes one call, the
  comment that rejects the approval, and returns what that call returns; on any other
  event it makes no call. In neither case is a label read, added or removed, is anybody
  assigned, or are collaborators or owners consulted.
\<close>

theorem self_approval_rejected:
  assumes "wantLGTM_of (Body e) = Some True"
    and "User_Login e = IssueAuthor_Login e"
  shows "new_calls s (snd (handle pkg gc cfg ownersClient e s)) =
           (if IsPR e \<and> IssueState e = ''open'' \<and> Action e = GenericCommentActionCreated
            then [CreateCommentCall (Repo_Owner_Login e) (Repo_Name e) (Number e)
                    (FormatResponseRaw pkg (Body e) (HTMLURL e) (User_Login e)
                       ''you cannot LGTM your own PR.'')]
            else []) \<and>
         fst (handle pkg gc cfg ownersClient e s) =
           (if IsPR e \<and> IssueState e = ''open'' \<and> Action e = GenericCommentActionCreated
            then fst (CreateComment gc (Repo_Owner_Login e) (Repo_Name e) (Number e)
                        (FormatResponseRaw pkg (Body e) (HTMLURL e) (User_Login e)
                           ''you cannot LGTM your own PR.'') (world s))
            else None)"
  using assms
  by (simp add: handle_def authorize_def invoke_eq logf_def Let_def new_calls_def)

theorem self_approval_rejected_witness:
  "wantLGTM_of ''/lgtm'' = Some True \<and>
   new_calls (start [])
     (snd (handle fake_pkg fake_client (config []) fake_owners
             (comment_event ''/lgtm'' ''author'' [''author'']) (start []))) =
     [CreateCommentCall ''kubernetes'' ''test-infra'' 5 ''@author: you cannot LGTM your own PR.'']"
proof -
  have w: "wantLGTM_of ''/lgtm'' = Some True"
    by (simp add: wantLGTM_of_eq line_eval)
  show ?thesis
    using w self_approval_rejected
      [where e = "comment_event ''/lgtm'' ''author'' [''author'']" and s = "start []"
         and pkg = fake_pkg and gc = fake_client and cfg = "config []"
         and ownersClient = fake_owners, THEN conjunct1]
    by (simp add: comment_event_def GenericCommentActionCreated_def fake_pkg_def)
qed

text \<open>
  C4. On a new comment on an open pull request whose body asks for cancellation and whose
  writer is the author of the pull request, the handler goes straight to the labels,
  whoever the assignees are and whatever the configuration lists: it reads the labels,
  removes the label \<open>lgtm\<close> if it was among them, and makes no other call.
\<close>

theorem author_may_cancel:
  assumes "IsPR e" "IssueState e = ''open''" "Action e = GenericCommentActionCreated"
    and "wantLGTM_of (Body e) = Some False"
    and "User_Login e = IssueAuthor_Login e"
  shows "handle pkg gc cfg ownersClient e s = reconcile gc e False s \<and>
         new_calls s (snd (handle pkg gc cfg ownersClient e s)) =
           GetIssueLabelsCall (Repo_Owner_Login e) (Repo_Name e) (Number e) #
           (if hasLGTM_of (fst (fst (GetIssueLabels gc (Repo_Owner_Login e) (Repo_Name e)
                                       (Number e) (world s))))
            then [RemoveLabelCall (Repo_Owner_Login e) (Repo_Name e) (Number e) lgtmLabel]
            else [])"
proof -
  have 1: "handle pkg gc cfg ownersClient e s = reconcile gc e False s"
    using assms by (simp add: handle_def authorize_def Let_def)
  have "new_calls s (snd (reconcile gc e False s)) =
           GetIssueLabelsCall (Repo_Owner_Login e) (Repo_Name e) (Number e) #
           (if hasLGTM_of (fst (fst (GetIssueLabels gc (Repo_Owner_Login e) (Repo_Name e)
                                       (Number e) (world s))))
            then [RemoveLabelCall (Repo_Owner_Login e) (Repo_Name e) (Number e) lgtmLabel]
            else [])"
    by (simp add: reconcile_def invoke_eq logf_def Let_def new_calls_def
             split: prod.splits option.splits)
  with 1 show ?thesis by simp
qed

theorem author_may_cancel_witness:
  "wantLGTM_of ''/lgtm cancel'' = Some False \<and>
   new_calls (start [''lgtm''])
     (snd (handle fake_pkg fake_client (config [''kubernetes'']) fake_owners
             (comment_event ''/lgtm cancel'' ''author'' []) (start [''lgtm'']))) =
     [GetIssueLabelsCall ''kubernetes'' ''test-infra'' 5,
      RemoveLabelCall ''kubernetes'' ''test-infra'' 5 ''lgtm'']"
proof -
  have w: "wantLGTM_of ''/lgtm cancel'' = Some False"
    by (simp add: wantLGTM_of_eq line_eval)
  show ?thesis
    using w author_may_cancel
      [where e = "comment_event ''/lgtm cancel'' ''author'' []" and s = "start [''lgtm'']"
         and pkg = fake_pkg and gc = fake_client and cfg = "config [''kubernetes'']"
         and ownersClient = fake_owners, THEN conjunct2]
    by (simp add: scenario)
qed


subsection \<open>The calls of each part of the handler\<close>

lemma deleteNotis_calls:
  "\<exists>xs. calls (deleteNotis gc e botname comments s) = calls s @ xs \<and> list_all cleanup_call xs"
proof (induction comments arbitrary: s)
  case Nil
  show ?case by simp
next
  case (Cons comment comments)
  show ?case
  proof (cases "ic_User_Login comment = botname \<and> ic_Body comment = removeLGTMLabelNoti")
    case False
    then show ?thesis using Cons.IH[of s] by auto
  next
    case True
    let ?c = "DeleteCommentCall (Repo_Owner_Login e) (Repo_Name e) (ic_ID comment)"
    obtain r s1 where inv: "invoke ?c (DeleteComment gc (Repo_Owner_Login e) (Repo_Name e) (ic_ID comment)) s = (r, s1)"
      by (cases "invoke ?c (DeleteComment gc (Repo_Owner_Login e) (Repo_Name e) (ic_ID comment)) s")
    then have c1: "calls s1 = calls s @ [?c]" by (auto simp: invoke_eq)
    define s2 where "s2 = (case r of
        Some err \<Rightarrow> logf (WithError_Errorf err ''Failed to delete comment from %s/%s#%d, ID:%d.''
                        [AStr (Repo_Owner_Login e), AStr (Repo_Name e), AInt (Number e),
                         AInt (ic_ID comment)]) s1
      | None \<Rightarrow> s1)"
    have c2: "calls s2 = calls s @ [?c]"
      using c1 by (simp add: s2_def logf_def split: option.splits)
    have eq: "deleteNotis gc e botname (comment # comments) s = deleteNotis gc e botname comments s2"
      using True inv by (simp add: s2_def split: option.splits)
    from Cons.IH[of s2] obtain xs where
      "calls (deleteNotis gc e botname comments s2) = calls s2 @ xs" "list_all cleanup_call xs"
      by blast
    then have "calls (deleteNotis gc e botname (comment # comments) s) = calls s @ (?c # xs) \<and>
               list_all cleanup_call (?c # xs)"
      using eq c2 by simp
    then show ?thesis by blast
  qed
qed

lemma cleanup_calls:
  "\<exists>xs. calls (cleanup gc e s) = calls s @ xs \<and> list_all cleanup_call xs"
proof -
  obtain botname err s1 where 1: "invoke BotNameCall (BotName gc) s = ((botname, err), s1)"
    by (metis surj_pair)
  then have c1: "calls s1 = calls s @ [BotNameCall]" by (auto simp: invoke_eq)
  define s2 where "s2 = (case err of
      Some err' \<Rightarrow> logf (WithError_Errorf err' ''Failed to get bot name.'' []) s1
    | None \<Rightarrow> s1)"
  have c2: "calls s2 = calls s @ [BotNameCall]"
    using c1 by (simp add: s2_def logf_def split: option.splits)
  let ?l = "ListIssueCommentsCall (Repo_Owner_Login e) (Repo_Name e) (Number e)"
  obtain comments err2 s3 where 3: "invoke ?l
      (ListIssueComments gc (Repo_Owner_Login e) (Repo_Name e) (Number e)) s2 = ((comments, err2), s3)"
    by (metis surj_pair)
  then have c3: "calls s3 = calls s @ [BotNameCall, ?l]" using c2 by (auto simp: invoke_eq)
  define s4 where "s4 = (case err2 of
      Some err' \<Rightarrow> logf (WithError_Errorf err' ''Failed to get the list of issue comments on %s/%s#%d.''
                         [AStr (Repo_Owner_Login e), AStr (Repo_Name e), AInt (Number e)]) s3
    | None \<Rightarrow> s3)"
  have c4: "calls s4 = calls s @ [BotNameCall, ?l]"
    using c3 by (simp add: s4_def logf_def split: option.splits)
  have eq: "cleanup gc e s = deleteNotis gc e botname comments s4"
    using 1 3 by (simp add: cleanup_def s2_def s4_def Let_def)
  from deleteNotis_calls[of gc e botname comments s4] obtain xs where
    "calls (deleteNotis gc e botname comments s4) = calls s4 @ xs" "list_all cleanup_call xs"
    by blast
  then have "calls (cleanup gc e s) = calls s @ (BotNameCall # ?l # xs) \<and>
             list_all cleanup_call (BotNameCall # ?l # xs)"
    using eq c4 by simp
  then show ?thesis by blast
qed

lemma reconcile_calls:
  "\<exists>xs. list_all cleanup_call xs \<and>
     calls (snd (reconcile gc e wantLGTM s)) =
       calls s @ GetIssueLabelsCall (Repo_Owner_Login e) (Repo_Name e) (Number e) #
       (let hasLGTM = hasLGTM_of (fst (fst (GetIssueLabels gc (Repo_Owner_Login e) (Repo_Name e)
                                              (Number e) (world s))))
        in if hasLGTM \<and> \<not> wantLGTM
           then [RemoveLabelCall (Repo_Owner_Login e) (Repo_Name e) (Number e) lgtmLabel]
           else if \<not> hasLGTM \<and> wantLGTM
           then AddLabelCall (Repo_Owner_Login e) (Repo_Name e) (Number e) lgtmLabel # xs
           else [])"
proof -
  let ?g = "GetIssueLabelsCall (Repo_Owner_Login e) (Repo_Name e) (Number e)"
  let ?has = "hasLGTM_of (fst (fst (GetIssueLabels gc (Repo_Owner_Login e) (Repo_Name e)
                                              (Number e) (world s))))"
  obtain labels err s1 where 1: "invoke ?g
      (GetIssueLabels gc (Repo_Owner_Login e) (Repo_Name e) (Number e)) s = ((labels, err), s1)"
    by (metis surj_pair)
  then have c1: "calls s1 = calls s @ [?g]" and l: "hasLGTM_of labels = ?has"
    by (auto simp: invoke_eq)
  define s2 where "s2 = (case err of
      Some err' \<Rightarrow> logf (WithError_Errorf err' ''Failed to get the labels on %s/%s#%d.''
                         [AStr (Repo_Owner_Login e), AStr (Repo_Name e), AInt (Number e)]) s1
    | None \<Rightarrow> s1)"
  have c2: "calls s2 = calls s @ [?g]"
    using c1 by (simp add: s2_def logf_def split: option.splits)
  consider (remove) "?has \<and> \<not> wantLGTM" | (add) "\<not> ?has \<and> wantLGTM" | (same) "?has = wantLGTM"
    by blast
  then show ?thesis
  proof cases
    case remove
    let ?r = "RemoveLabelCall (Repo_Owner_Login e) (Repo_Name e) (Number e) lgtmLabel"
    obtain r s3 where 3: "invoke ?r (RemoveLabel gc (Repo_Owner_Login e) (Repo_Name e) (Number e) lgtmLabel)
        (logf (Info ''Removing LGTM label.'') s2) = (r, s3)"
      by (metis surj_pair)
    then have c3: "calls s3 = calls s @ [?g, ?r]"
      using c2 by (auto simp: invoke_eq logf_def)
    have "reconcile gc e wantLGTM s = (r, s3)"
      using 1 l remove 3 by (simp add: reconcile_def Let_def s2_def[symmetric])
    then have "calls (snd (reconcile gc e wantLGTM s)) = calls s @ [?g, ?r]"
      using c3 by simp
    with remove show ?thesis by (intro exI[of _ "[]"]) (simp add: Let_def)
  next
    case same
    then have "calls (snd (reconcile gc e wantLGTM s)) = calls s @ [?g]"
      using 1 l c2 by (auto simp: reconcile_def Let_def s2_def[symmetric])
    with same show ?thesis by (intro exI[of _ "[]"]) (auto simp: Let_def)
  next
    case add
    let ?a = "AddLabelCall (Repo_Owner_Login e) (Repo_Name e) (Number e) lgtmLabel"
    obtain r s3 where 3: "invoke ?a (AddLabel gc (Repo_Owner_Login e) (Repo_Name e) (Number e) lgtmLabel)
        (logf (Info ''Adding LGTM label.'') s2) = (r, s3)"
      by (metis surj_pair)
    then have c3: "calls s3 = calls s @ [?g, ?a]"
      using c2 by (auto simp: invoke_eq logf_def)
    show ?thesis
    proof (cases r)
      case (Some err')
      then have "calls (snd (reconcile gc e wantLGTM s)) = calls s @ [?g, ?a]"
        using 1 l add 3 c3 by (simp add: reconcile_def Let_def s2_def[symmetric])
      with add show ?thesis by (intro exI[of _ "[]"]) (simp add: Let_def)
    next
      case None
      then have eq: "snd (reconcile gc e wantLGTM s) = cleanup gc e s3"
        using 1 l add 3 by (simp add: reconcile_def Let_def s2_def[symmetric])
      from cleanup_calls[of gc e s3] obtain xs where
        xs: "calls (cleanup gc e s3) = calls s3 @ xs" "list_all cleanup_call xs" by blast
      then have "calls (snd (reconcile gc e wantLGTM s)) = calls s @ ?g # ?a # xs"
        using eq c3 by simp
      with add xs(2) show ?thesis by (intro exI[of _ xs]) (simp add: Let_def)
    qed
  qed
qed

lemma authorize_self:
  assumes "User_Login e = IssueAuthor_Login e" "wantLGTM"
  shows "calls (snd (authorize pkg gc cfg ownersClient e wantLGTM s)) =
           calls s @ [CreateCommentCall (Repo_Owner_Login e) (Repo_Name e) (Number e)
              (FormatResponseRaw pkg (Body e) (HTMLURL e) (User_Login e)
                 ''you cannot LGTM your own PR.'')]"
  using assms by (simp add: authorize_def Let_def invoke_eq logf_def)

lemma authorize_pass:
  assumes "User_Login e = IssueAuthor_Login e \<and> \<not> wantLGTM \<or>
           User_Login e \<noteq> IssueAuthor_Login e \<and> isAssignee e \<and>
             \<not> skipCollaborators cfg (Repo_Owner_Login e) (Repo_Name e)"
  shows "authorize pkg gc cfg ownersClient e wantLGTM s = (None, s)"
  using assms by (auto simp: authorize_def Let_def)

lemma authorize_assign:
  assumes "User_Login e \<noteq> IssueAuthor_Login e" "\<not> isAssignee e"
    "\<not> skipCollaborators cfg (Repo_Owner_Login e) (Repo_Name e)"
  shows "\<exists>xs. calls (snd (authorize pkg gc cfg ownersClient e wantLGTM s)) =
           calls s @ AssignIssueCall (Repo_Owner_Login e) (Repo_Name e) (Number e) [User_Login e] # xs \<and>
           list_all authorize_call xs"
  using assms
  by (simp add: authorize_def Let_def invoke_eq logf_def split: prod.splits option.splits)

lemma loadRepoOwners_calls:
  "\<exists>xs. calls (snd (loadRepoOwners gc ownersClient org repo number s)) = calls s @ xs \<and>
        list_all authorize_call xs \<and> \<not> list_ex isAssignIssue xs"
  by (simp add: loadRepoOwners_def invoke_eq split: prod.splits sum.splits)

lemma getChangedFiles_calls:
  "calls (snd (getChangedFiles gc org repo number s)) =
     calls s @ [GetPullRequestChangesCall org repo number]"
  by (simp add: getChangedFiles_def invoke_eq split: prod.splits option.splits)

lemma authorize_owners:
  assumes "User_Login e \<noteq> IssueAuthor_Login e"
    "skipCollaborators cfg (Repo_Owner_Login e) (Repo_Name e)"
  shows "\<exists>xs. calls (snd (authorize pkg gc cfg ownersClient e wantLGTM s)) = calls s @ xs \<and>
           list_all authorize_call xs \<and> \<not> list_ex isAssignIssue xs"
proof -
  let ?org = "Repo_Owner_Login e" and ?repo = "Repo_Name e"
  let ?s1 = "logf (Debugf ''Skipping collaborator checks and loading OWNERS for %s/%s#%d''
                          [AStr ?org, AStr ?repo, AInt (Number e)]) s"
  have c1: "calls ?s1 = calls s" by (simp add: logf_def)
  obtain ro s2 where 2: "loadRepoOwners gc ownersClient ?org ?repo (Number e) ?s1 = (ro, s2)"
    by (metis surj_pair)
  from loadRepoOwners_calls[of gc ownersClient ?org ?repo "Number e" ?s1] 2 c1
  obtain xs where xs: "calls s2 = calls s @ xs" "list_all authorize_call xs" "\<not> list_ex isAssignIssue xs"
    by auto
  obtain fs s3 where 3: "getChangedFiles gc ?org ?repo (Number e) s2 = (fs, s3)"
    by (metis surj_pair)
  from getChangedFiles_calls[of gc ?org ?repo "Number e" s2] 3
  have c3: "calls s3 = calls s @ xs @ [GetPullRequestChangesCall ?org ?repo (Number e)]"
    using xs(1) by simp
  have "calls (snd (authorize pkg gc cfg ownersClient e wantLGTM s)) = calls s @ xs \<or>
        calls (snd (authorize pkg gc cfg ownersClient e wantLGTM s)) =
          calls s @ xs @ [GetPullRequestChangesCall ?org ?repo (Number e)] \<or>
        (\<exists>c. calls (snd (authorize pkg gc cfg ownersClient e wantLGTM s)) =
          calls s @ xs @ [GetPullRequestChangesCall ?org ?repo (Number e), CreateCommentCall ?org ?repo (Number e) c])"
    using assms 2 3 xs(1) c3
    by (simp add: authorize_def Let_def invoke_eq logf_def split: sum.splits)
  then show ?thesis
  proof (elim disjE exE)
    assume "calls (snd (authorize pkg gc cfg ownersClient e wantLGTM s)) = calls s @ xs"
    with xs show ?thesis by blast
  next
    assume "calls (snd (authorize pkg gc cfg ownersClient e wantLGTM s)) =
          calls s @ xs @ [GetPullRequestChangesCall ?org ?repo (Number e)]"
    with xs show ?thesis
      by (intro exI[of _ "xs @ [GetPullRequestChangesCall ?org ?repo (Number e)]"]) simp
  next
    fix c
    assume "calls (snd (authorize pkg gc cfg ownersClient e wantLGTM s)) =
          calls s @ xs @ [GetPullRequestChangesCall ?org ?repo (Number e), CreateCommentCall ?org ?repo (Number e) c]"
    with xs show ?thesis
      by (intro exI[of _ "xs @ [GetPullRequestChangesCall ?org ?repo (Number e), CreateCommentCall ?org ?repo (Number e) c]"]) simp
  qed
qed

lemma authorize_calls:
  "\<exists>xs. calls (snd (authorize pkg gc cfg ownersClient e wantLGTM s)) = calls s @ xs \<and>
        list_all authorize_call xs \<and>
        (list_ex isAssignIssue xs \<longrightarrow>
           User_Login e \<noteq> IssueAuthor_Login e \<and> \<not> isAssignee e \<and>
           \<not> skipCollaborators cfg (Repo_Owner_Login e) (Repo_Name e))"
proof -
  consider (self) "User_Login e = IssueAuthor_Login e" "wantLGTM"
    | (pass) "User_Login e = IssueAuthor_Login e \<and> \<not> wantLGTM \<or>
           User_Login e \<noteq> IssueAuthor_Login e \<and> isAssignee e \<and>
             \<not> skipCollaborators cfg (Repo_Owner_Login e) (Repo_Name e)"
    | (assign) "User_Login e \<noteq> IssueAuthor_Login e" "\<not> isAssignee e"
        "\<not> skipCollaborators cfg (Repo_Owner_Login e) (Repo_Name e)"
    | (owners) "User_Login e \<noteq> IssueAuthor_Login e"
        "skipCollaborators cfg (Repo_Owner_Login e) (Repo_Name e)"
    by blast
  then show ?thesis
  proof cases
    case self
    from authorize_self[OF this, of pkg gc cfg ownersClient s] show ?thesis
      by (intro exI[of _ "[CreateCommentCall (Repo_Owner_Login e) (Repo_Name e) (Number e)
              (FormatResponseRaw pkg (Body e) (HTMLURL e) (User_Login e)
                 ''you cannot LGTM your own PR.'')]"]) simp
  next
    case pass
    from authorize_pass[OF this, of pkg gc ownersClient s] show ?thesis
      by (intro exI[of _ "[]"]) simp
  next
    case assign
    from authorize_assign[OF this, of pkg gc ownersClient wantLGTM s] obtain xs where
      "calls (snd (authorize pkg gc cfg ownersClient e wantLGTM s)) =
           calls s @ AssignIssueCall (Repo_Owner_Login e) (Repo_Name e) (Number e) [User_Login e] # xs"
      "list_all authorize_call xs" by blast
    with assign show ?thesis
      by (intro exI[of _ "AssignIssueCall (Repo_Owner_Login e) (Repo_Name e) (Number e) [User_Login e] # xs"]) simp
  next
    case owners
    from authorize_owners[OF this, of pkg gc ownersClient wantLGTM s] show ?thesis by blast
  qed
qed

lemma authorize_not_label: "authorize_call c \<Longrightarrow> \<not> label_call c"
  by (cases c) (simp_all add: label_call_def)

lemma cleanup_not_label: "cleanup_call c \<Longrightarrow> \<not> label_call c"
  by (cases c) (simp_all add: label_call_def)

lemma cleanup_not_authorize: "cleanup_call c \<Longrightarrow> \<not> authorize_call c"
  by (cases c) simp_all

lemma reconcile_new_calls:
  "\<exists>xs. list_all cleanup_call xs \<and>
     new_calls s (snd (reconcile gc e wantLGTM s)) =
       GetIssueLabelsCall (Repo_Owner_Login e) (Repo_Name e) (Number e) #
       (let hasLGTM = hasLGTM_of (fst (fst (GetIssueLabels gc (Repo_Owner_Login e) (Repo_Name e)
                                              (Number e) (world s))))
        in if hasLGTM \<and> \<not> wantLGTM
           then [RemoveLabelCall (Repo_Owner_Login e) (Repo_Name e) (Number e) lgtmLabel]
           else if \<not> hasLGTM \<and> wantLGTM
           then AddLabelCall (Repo_Owner_Login e) (Repo_Name e) (Number e) lgtmLabel # xs
           else [])"
  using reconcile_calls[of gc e wantLGTM s] by (auto simp: new_calls_def)

lemma reconcile_labels:
  fixes gc e s wantLGTM
  defines "hasLGTM \<equiv> hasLGTM_of (fst (fst (GetIssueLabels gc (Repo_Owner_Login e) (Repo_Name e)
                                              (Number e) (world s))))"
    and "new \<equiv> new_calls s (snd (reconcile gc e wantLGTM s))"
  shows "list_ex isAddLabel new \<longleftrightarrow> \<not> hasLGTM \<and> wantLGTM"
    and "list_ex isRemoveLabel new \<longleftrightarrow> hasLGTM \<and> \<not> wantLGTM"
    and "length (filter label_call new) \<le> 1"
    and "list_all (\<lambda>c. \<not> authorize_call c) new"
    and "hasLGTM = wantLGTM \<Longrightarrow> new = [GetIssueLabelsCall (Repo_Owner_Login e) (Repo_Name e) (Number e)]"
proof -
  from reconcile_new_calls[of s gc e wantLGTM] obtain xs where
    xs: "list_all cleanup_call xs" and
    new: "new = GetIssueLabelsCall (Repo_Owner_Login e) (Repo_Name e) (Number e) #
       (if hasLGTM \<and> \<not> wantLGTM
           then [RemoveLabelCall (Repo_Owner_Login e) (Repo_Name e) (Number e) lgtmLabel]
           else if \<not> hasLGTM \<and> wantLGTM
           then AddLabelCall (Repo_Owner_Login e) (Repo_Name e) (Number e) lgtmLabel # xs
           else [])"
    unfolding hasLGTM_def new_def Let_def by blast
  have a: "\<not> list_ex isAddLabel xs" "\<not> list_ex isRemoveLabel xs" "filter label_call xs = []"
    "list_all (\<lambda>c. \<not> authorize_call c) xs"
    using xs cleanup_not_label cleanup_not_authorize
    by (auto simp: list_ex_iff list_all_iff label_call_def filter_empty_conv)
  show "list_ex isAddLabel new \<longleftrightarrow> \<not> hasLGTM \<and> wantLGTM"
    using a(1) by (auto simp: new)
  show "list_ex isRemoveLabel new \<longleftrightarrow> hasLGTM \<and> \<not> wantLGTM"
    using a(2) by (auto simp: new)
  show "length (filter label_call new) \<le> 1"
    using a(3) by (auto simp: new label_call_def)
  show "list_all (\<lambda>c. \<not> authorize_call c) new"
    using a(4) by (auto simp: new)
  show "new = [GetIssueLabelsCall (Repo_Owner_Login e) (Repo_Name e) (Number e)]" if "hasLGTM = wantLGTM"
    using that by (auto simp: new)
qed

lemma reconcile_same:
  assumes "hasLGTM_of (fst (fst (GetIssueLabels gc (Repo_Owner_Login e) (Repo_Name e)
                                   (Number e) (world s)))) = wantLGTM"
  shows "fst (reconcile gc e wantLGTM s) = None"
  using assms by (auto simp: reconcile_def Let_def invoke_eq split: prod.splits)

lemma handle_new_calls:
  "\<exists>xs ys. new_calls s (snd (handle pkg gc cfg ownersClient e s)) = xs @ ys \<and>
     list_all authorize_call xs \<and>
     (list_ex isAssignIssue xs \<longrightarrow>
        User_Login e \<noteq> IssueAuthor_Login e \<and> \<not> isAssignee e \<and>
        \<not> skipCollaborators cfg (Repo_Owner_Login e) (Repo_Name e)) \<and>
     list_all (\<lambda>c. \<not> authorize_call c) ys \<and> length (filter label_call ys) \<le> 1"
proof (cases "\<not> IsPR e \<or> IssueState e \<noteq> ''open'' \<or> Action e \<noteq> GenericCommentActionCreated \<or>
              wantLGTM_of (Body e) = None")
  case True
  then have "handle pkg gc cfg ownersClient e s = (None, s)"
    by (auto simp: handle_def)
  then show ?thesis by (intro exI[of _ "[]"]) simp
next
  case False
  then obtain wantLGTM where w: "wantLGTM_of (Body e) = Some wantLGTM" by auto
  obtain r s1 where a: "authorize pkg gc cfg ownersClient e wantLGTM s = (r, s1)"
    by (metis surj_pair)
  from authorize_calls[of pkg gc cfg ownersClient e wantLGTM s] a obtain xs where
    xs: "calls s1 = calls s @ xs" "list_all authorize_call xs"
      "list_ex isAssignIssue xs \<longrightarrow>
        User_Login e \<noteq> IssueAuthor_Login e \<and> \<not> isAssignee e \<and>
        \<not> skipCollaborators cfg (Repo_Owner_Login e) (Repo_Name e)"
    by auto
  show ?thesis
  proof (cases r)
    case (Some res)
    then have "handle pkg gc cfg ownersClient e s = (res, s1)"
      using False w a by (simp add: handle_def)
    then have "new_calls s (snd (handle pkg gc cfg ownersClient e s)) = xs @ []"
      using xs(1) by simp
    with xs(2,3) show ?thesis by (intro exI[of _ xs] exI[of _ "[]"]) simp
  next
    case None
    then have h: "handle pkg gc cfg ownersClient e s = reconcile gc e wantLGTM s1"
      using False w a by (simp add: handle_def)
    let ?ys = "new_calls s1 (snd (reconcile gc e wantLGTM s1))"
    obtain zs where zs: "calls (snd (reconcile gc e wantLGTM s1)) = calls s1 @ zs"
      using reconcile_calls[of gc e wantLGTM s1] by blast
    then have "?ys = zs" by simp
    moreover have "calls (snd (handle pkg gc cfg ownersClient e s)) = calls s @ (xs @ zs)"
      using h zs xs(1) by simp
    ultimately have "new_calls s (snd (handle pkg gc cfg ownersClient e s)) = xs @ ?ys"
      by (simp only: new_calls_append)
    with xs(2,3) reconcile_labels(3,4)[where s = s1 and gc = gc and e = e and wantLGTM = wantLGTM]
    show ?thesis by (intro exI[of _ xs] exI[of _ ?ys]) simp
  qed
qed



lemma loadReviewers_foldl:
  "foldl (\<lambda>reviewers filename. reviewers \<union> Approvers ro filename \<union> Reviewers ro filename)
         acc filenames =
     acc \<union> (\<Union>f \<in> set filenames. Approvers ro f \<union> Reviewers ro f)"
  by (induction filenames arbitrary: acc) auto

lemma owners_path:
  assumes "User_Login e \<noteq> IssueAuthor_Login e"
    and "skipCollaborators cfg (Repo_Owner_Login e) (Repo_Name e)"
    and "GetPullRequest gc (Repo_Owner_Login e) (Repo_Name e) (Number e) (world s) = (Inr pr, w1)"
    and "LoadRepoOwners ownersClient (Repo_Owner_Login e) (Repo_Name e) (Base_Ref pr) w1 = (Inr ro, w2)"
    and "GetPullRequestChanges gc (Repo_Owner_Login e) (Repo_Name e) (Number e) w2 =
           ((changes, None), w3)"
  shows "authorize pkg gc cfg ownersClient e wantLGTM s =
     (let org = Repo_Owner_Login e; repo = Repo_Name e;
          s3 = s\<lparr>logs := logs s @
                    [Debugf ''Skipping collaborator checks and loading OWNERS for %s/%s#%d''
                       [AStr org, AStr repo, AInt (Number e)]],
                  world := w3,
                  calls := calls s @
                    [GetPullRequestCall org repo (Number e),
                     LoadRepoOwnersCall org repo (Base_Ref pr),
                     GetPullRequestChangesCall org repo (Number e)]\<rparr>;
          resp = ''adding LGTM is restricted to approvers and reviewers in OWNERS files.'';
          text = FormatResponseRaw pkg (Body e) (HTMLURL e) (User_Login e) resp
      in if NormLogin pkg (User_Login e) \<notin> loadReviewers ro (map Filename changes)
         then (Some (fst (CreateComment gc org repo (Number e) text w3)),
               s3\<lparr>logs := logs s3 @
                        [Infof (''Reply to /lgtm request with comment: '' @ quote @ ''%s'' @ quote)
                           [AStr resp]],
                    world := snd (CreateComment gc org repo (Number e) text w3),
                    calls := calls s3 @ [CreateCommentCall org repo (Number e) text]\<rparr>)
         else (None, s3))"
  using assms
  by (simp add: authorize_def loadRepoOwners_def getChangedFiles_def Let_def invoke_eq logf_def)

lemma handle_extends_authorize:
  assumes "IsPR e" "IssueState e = ''open''" "Action e = GenericCommentActionCreated"
    and "wantLGTM_of (Body e) = Some wantLGTM"
  shows "\<exists>zs. calls (snd (handle pkg gc cfg ownersClient e s)) =
               calls (snd (authorize pkg gc cfg ownersClient e wantLGTM s)) @ zs"
proof -
  obtain r s1 where a: "authorize pkg gc cfg ownersClient e wantLGTM s = (r, s1)"
    by (metis surj_pair)
  show ?thesis
  proof (cases r)
    case (Some res)
    then have "handle pkg gc cfg ownersClient e s = (res, s1)"
      using assms a by (simp add: handle_def)
    then show ?thesis using a by simp
  next
    case None
    then have "handle pkg gc cfg ownersClient e s = reconcile gc e wantLGTM s1"
      using assms a by (simp add: handle_def)
    then show ?thesis using a reconcile_calls[of gc e wantLGTM s1] by auto
  qed
qed

lemma cleanup_call_not_add: "cleanup_call c \<Longrightarrow> \<not> isAddLabel c \<and> \<not> isRemoveLabel c"
  by (cases c) simp_all

lemma authorize_call_not_add: "authorize_call c \<Longrightarrow> \<not> isAddLabel c \<and> \<not> isRemoveLabel c"
  by (cases c) simp_all

lemma reconcile_filter:
  fixes gc e s wantLGTM
  defines "hasLGTM \<equiv> hasLGTM_of (fst (fst (GetIssueLabels gc (Repo_Owner_Login e) (Repo_Name e)
                                              (Number e) (world s))))"
    and "new \<equiv> new_calls s (snd (reconcile gc e wantLGTM s))"
  shows "filter isAddLabel new =
           (if \<not> hasLGTM \<and> wantLGTM
            then [AddLabelCall (Repo_Owner_Login e) (Repo_Name e) (Number e) lgtmLabel] else [])"
    and "filter isRemoveLabel new =
           (if hasLGTM \<and> \<not> wantLGTM
            then [RemoveLabelCall (Repo_Owner_Login e) (Repo_Name e) (Number e) lgtmLabel] else [])"
proof -
  from reconcile_new_calls[of s gc e wantLGTM] obtain xs where
    xs: "list_all cleanup_call xs" and
    new: "new = GetIssueLabelsCall (Repo_Owner_Login e) (Repo_Name e) (Number e) #
       (if hasLGTM \<and> \<not> wantLGTM
           then [RemoveLabelCall (Repo_Owner_Login e) (Repo_Name e) (Number e) lgtmLabel]
           else if \<not> hasLGTM \<and> wantLGTM
           then AddLabelCall (Repo_Owner_Login e) (Repo_Name e) (Number e) lgtmLabel # xs
           else [])"
    unfolding hasLGTM_def new_def Let_def by blast
  have a: "filter isAddLabel xs = []" "filter isRemoveLabel xs = []"
    using xs cleanup_call_not_add by (auto simp: list_all_iff filter_empty_conv)
  show "filter isAddLabel new =
           (if \<not> hasLGTM \<and> wantLGTM
            then [AddLabelCall (Repo_Owner_Login e) (Repo_Name e) (Number e) lgtmLabel] else [])"
    using a by (auto simp: new)
  show "filter isRemoveLabel new =
           (if hasLGTM \<and> \<not> wantLGTM
            then [RemoveLabelCall (Repo_Owner_Login e) (Repo_Name e) (Number e) lgtmLabel] else [])"
    using a by (auto simp: new)
qed

lemma handle_run:
  "\<exists>xs. list_all authorize_call xs \<and>
     (case (if IsPR e \<and> IssueState e = ''open'' \<and> Action e = GenericCommentActionCreated
            then wantLGTM_of (Body e) else None) of
        None \<Rightarrow> handle pkg gc cfg ownersClient e s = (None, s)
      | Some wantLGTM \<Rightarrow>
          calls (snd (authorize pkg gc cfg ownersClient e wantLGTM s)) = calls s @ xs \<and>
          (case fst (authorize pkg gc cfg ownersClient e wantLGTM s) of
             Some r \<Rightarrow> handle pkg gc cfg ownersClient e s =
                         (r, snd (authorize pkg gc cfg ownersClient e wantLGTM s))
           | None \<Rightarrow>
               handle pkg gc cfg ownersClient e s =
                 reconcile gc e wantLGTM (snd (authorize pkg gc cfg ownersClient e wantLGTM s)) \<and>
               new_calls s (snd (handle pkg gc cfg ownersClient e s)) =
                 xs @ new_calls (snd (authorize pkg gc cfg ownersClient e wantLGTM s))
                        (snd (handle pkg gc cfg ownersClient e s))))"
proof (cases "if IsPR e \<and> IssueState e = ''open'' \<and> Action e = GenericCommentActionCreated
            then wantLGTM_of (Body e) else None")
  case None
  then have "handle pkg gc cfg ownersClient e s = (None, s)"
    by (auto simp: handle_def split: if_splits)
  with None show ?thesis by (intro exI[of _ "[]"]) simp
next
  case (Some wantLGTM)
  then have g: "IsPR e" "IssueState e = ''open''" "Action e = GenericCommentActionCreated"
    "wantLGTM_of (Body e) = Some wantLGTM"
    by (auto split: if_splits)
  let ?a = "authorize pkg gc cfg ownersClient e wantLGTM s"
  from authorize_calls[of pkg gc cfg ownersClient e wantLGTM s] obtain xs where
    xs: "calls (snd ?a) = calls s @ xs" "list_all authorize_call xs" by blast
  show ?thesis
  proof (cases "fst ?a")
    case (Some r)
    then have "handle pkg gc cfg ownersClient e s = (r, snd ?a)"
      using g by (auto simp: handle_def split: prod.splits)
    with Some \<open>(if IsPR e \<and> IssueState e = ''open'' \<and> Action e = GenericCommentActionCreated
            then wantLGTM_of (Body e) else None) = Some wantLGTM\<close> xs
    show ?thesis by (intro exI[of _ xs]) simp
  next
    case None
    then have h: "handle pkg gc cfg ownersClient e s = reconcile gc e wantLGTM (snd ?a)"
      using g by (auto simp: handle_def split: prod.splits)
    obtain zs where zs: "calls (snd (reconcile gc e wantLGTM (snd ?a))) = calls (snd ?a) @ zs"
      using reconcile_calls[of gc e wantLGTM "snd ?a"] by blast
    then have 1: "new_calls (snd ?a) (snd (handle pkg gc cfg ownersClient e s)) = zs"
      unfolding h by simp
    have "calls (snd (handle pkg gc cfg ownersClient e s)) = calls s @ (xs @ zs)"
      unfolding h using zs xs(1) by simp
    then have 2: "new_calls s (snd (handle pkg gc cfg ownersClient e s)) = xs @ zs"
      by (rule new_calls_append)
    from None h 1 2 xs
      \<open>(if IsPR e \<and> IssueState e = ''open'' \<and> Action e = GenericCommentActionCreated
            then wantLGTM_of (Body e) else None) = Some wantLGTM\<close>
    show ?thesis by (intro exI[of _ xs]) simp
  qed
qed

lemma label_count:
  "length (filter label_call (new_calls s (snd (handle pkg gc cfg ownersClient e s)))) \<le> 1"
proof -
  from handle_new_calls[of s pkg gc cfg ownersClient e] obtain xs ys where
    h: "new_calls s (snd (handle pkg gc cfg ownersClient e s)) = xs @ ys"
       "list_all authorize_call xs" "length (filter label_call ys) \<le> 1"
    by blast
  have "filter label_call xs = []"
    using h(2) authorize_not_label by (auto simp: filter_empty_conv list_all_iff)
  with h(1,3) show ?thesis by simp
qed


subsection \<open>Labels\<close>

text \<open>
  C6. In every run of the handler, whatever the event: the handler adds a label exactly
  if the event is a new comment on an open pull request, its body asks for approval, the
  authorization lets it pass and the label was not among the labels then read, and it
  does so with one call, for the label \<open>lgtm\<close>; it removes a label exactly if the body
  asks for cancellation, the authorization lets it pass and the label was among the labels
  read, again with one call for \<open>lgtm\<close>. Where the handler reaches the labels and what
  it reads already is what the comment asks for, reading the labels is its only further
  call and it returns success. No run makes more than one call that adds or removes a
  label, so never both.
\<close>

theorem label_reconciliation:
  fixes pkg gc cfg ownersClient e s
  defines "passes \<equiv> \<lambda>wantLGTM.
      IsPR e \<and> IssueState e = ''open'' \<and> Action e = GenericCommentActionCreated \<and>
      wantLGTM_of (Body e) = Some wantLGTM \<and>
      fst (authorize pkg gc cfg ownersClient e wantLGTM s) = None"
    and "reached \<equiv> \<lambda>wantLGTM. snd (authorize pkg gc cfg ownersClient e wantLGTM s)"
    and "new \<equiv> new_calls s (snd (handle pkg gc cfg ownersClient e s))"
  defines "hasLGTM \<equiv> \<lambda>wantLGTM.
      hasLGTM_of (fst (fst (GetIssueLabels gc (Repo_Owner_Login e) (Repo_Name e) (Number e)
                              (world (reached wantLGTM)))))"
  shows "filter isAddLabel new =
           (if passes True \<and> \<not> hasLGTM True
            then [AddLabelCall (Repo_Owner_Login e) (Repo_Name e) (Number e) lgtmLabel]
            else []) \<and>
         filter isRemoveLabel new =
           (if passes False \<and> hasLGTM False
            then [RemoveLabelCall (Repo_Owner_Login e) (Repo_Name e) (Number e) lgtmLabel]
            else []) \<and>
         (passes wantLGTM \<and> hasLGTM wantLGTM = wantLGTM \<longrightarrow>
            new_calls (reached wantLGTM) (snd (handle pkg gc cfg ownersClient e s)) =
              [GetIssueLabelsCall (Repo_Owner_Login e) (Repo_Name e) (Number e)] \<and>
            fst (handle pkg gc cfg ownersClient e s) = None) \<and>
         length (filter label_call new) \<le> 1"
proof -
  from handle_run[where e = e and pkg = pkg and gc = gc and cfg = cfg and ownersClient = ownersClient and s = s] obtain xs where
    xs: "list_all authorize_call xs" and
    run: "case (if IsPR e \<and> IssueState e = ''open'' \<and> Action e = GenericCommentActionCreated
            then wantLGTM_of (Body e) else None) of
        None \<Rightarrow> handle pkg gc cfg ownersClient e s = (None, s)
      | Some wantLGTM \<Rightarrow>
          calls (snd (authorize pkg gc cfg ownersClient e wantLGTM s)) = calls s @ xs \<and>
          (case fst (authorize pkg gc cfg ownersClient e wantLGTM s) of
             Some r \<Rightarrow> handle pkg gc cfg ownersClient e s =
                         (r, snd (authorize pkg gc cfg ownersClient e wantLGTM s))
           | None \<Rightarrow>
               handle pkg gc cfg ownersClient e s =
                 reconcile gc e wantLGTM (snd (authorize pkg gc cfg ownersClient e wantLGTM s)) \<and>
               new_calls s (snd (handle pkg gc cfg ownersClient e s)) =
                 xs @ new_calls (snd (authorize pkg gc cfg ownersClient e wantLGTM s))
                        (snd (handle pkg gc cfg ownersClient e s)))"
    by blast
  have fx: "filter isAddLabel xs = []" "filter isRemoveLabel xs = []" "filter label_call xs = []"
    using xs authorize_call_not_add
    by (auto simp: list_all_iff filter_empty_conv label_call_def)
  have count: "length (filter label_call new) \<le> 1"
    using label_count[where e = e and pkg = pkg and gc = gc and cfg = cfg and ownersClient = ownersClient and s = s] unfolding new_def .
  show ?thesis
  proof (cases "if IsPR e \<and> IssueState e = ''open'' \<and> Action e = GenericCommentActionCreated
            then wantLGTM_of (Body e) else None")
    case None
    with run have h: "handle pkg gc cfg ownersClient e s = (None, s)" by simp
    from None have np: "\<not> passes w" for w by (auto simp: passes_def split: if_splits)
    from h have "new = []" by (simp add: new_def)
    with np count show ?thesis by simp
  next
    case (Some w)
    then have g: "IsPR e" "IssueState e = ''open''" "Action e = GenericCommentActionCreated"
      "wantLGTM_of (Body e) = Some w"
      by (auto split: if_splits)
    from Some run have c: "calls (reached w) = calls s @ xs"
      and r: "case fst (authorize pkg gc cfg ownersClient e w s) of
             Some r \<Rightarrow> handle pkg gc cfg ownersClient e s = (r, reached w)
           | None \<Rightarrow>
               handle pkg gc cfg ownersClient e s = reconcile gc e w (reached w) \<and>
               new = xs @ new_calls (reached w) (snd (handle pkg gc cfg ownersClient e s))"
      unfolding reached_def new_def by simp_all
    have other: "\<not> passes (\<not> w)" using g(4) by (auto simp: passes_def)
    show ?thesis
    proof (cases "fst (authorize pkg gc cfg ownersClient e w s)")
      case (Some res)
      with r have "handle pkg gc cfg ownersClient e s = (res, reached w)" by simp
      then have n: "new = xs" using c by (simp add: new_def)
      from Some have "\<not> passes w" by (simp add: passes_def)
      with other have np: "\<not> passes v" for v by (cases "v = w") auto
      from n fx np count show ?thesis by simp
    next
      case None
      with r have h: "handle pkg gc cfg ownersClient e s = reconcile gc e w (reached w)"
        and n: "new = xs @ new_calls (reached w) (snd (reconcile gc e w (reached w)))"
        by simp_all
      from None g have p: "passes w" by (simp add: passes_def)
      have pv: "passes v \<longleftrightarrow> v = w" for v using p other by (cases "v = w") auto
      have a: "filter isAddLabel new =
           (if \<not> hasLGTM w \<and> w
            then [AddLabelCall (Repo_Owner_Login e) (Repo_Name e) (Number e) lgtmLabel] else [])"
        unfolding n hasLGTM_def using fx(1) reconcile_filter(1)[where gc = gc and e = e and s = "reached w" and wantLGTM = w] by simp
      have b: "filter isRemoveLabel new =
           (if hasLGTM w \<and> \<not> w
            then [RemoveLabelCall (Repo_Owner_Login e) (Repo_Name e) (Number e) lgtmLabel] else [])"
        unfolding n hasLGTM_def using fx(2) reconcile_filter(2)[where gc = gc and e = e and s = "reached w" and wantLGTM = w] by simp
      have s1: "new_calls (reached w) (snd (handle pkg gc cfg ownersClient e s)) =
              [GetIssueLabelsCall (Repo_Owner_Login e) (Repo_Name e) (Number e)] \<and>
            fst (handle pkg gc cfg ownersClient e s) = None" if "hasLGTM w = w"
        unfolding h
        using that reconcile_labels(5)[where gc = gc and e = e and s = "reached w" and wantLGTM = w]
          reconcile_same[where gc = gc and e = e and s = "reached w" and wantLGTM = w]
        by (simp add: hasLGTM_def)
      have 1: "filter isAddLabel new =
           (if passes True \<and> \<not> hasLGTM True
            then [AddLabelCall (Repo_Owner_Login e) (Repo_Name e) (Number e) lgtmLabel]
            else [])"
        using a pv[of True] by (cases w) auto
      have 2: "filter isRemoveLabel new =
           (if passes False \<and> hasLGTM False
            then [RemoveLabelCall (Repo_Owner_Login e) (Repo_Name e) (Number e) lgtmLabel]
            else [])"
        using b pv[of False] by (cases w) auto
      have 3: "passes wantLGTM \<and> hasLGTM wantLGTM = wantLGTM \<longrightarrow>
            new_calls (reached wantLGTM) (snd (handle pkg gc cfg ownersClient e s)) =
              [GetIssueLabelsCall (Repo_Owner_Login e) (Repo_Name e) (Number e)] \<and>
            fst (handle pkg gc cfg ownersClient e s) = None"
        using s1 pv[of wantLGTM] by blast
      from 1 2 3 count show ?thesis by blast
    qed
  qed
qed

theorem label_reconciliation_witness:
  "filter isAddLabel (new_calls (start [])
     (snd (handle fake_pkg fake_client (config []) fake_owners
             (comment_event ''/lgtm'' ''bob'' [''bob'']) (start [])))) =
     [AddLabelCall ''kubernetes'' ''test-infra'' 5 ''lgtm''] \<and>
   filter isRemoveLabel (new_calls (start [''lgtm''])
     (snd (handle fake_pkg fake_client (config []) fake_owners
             (comment_event ''/lgtm cancel'' ''bob'' [''bob'']) (start [''lgtm''])))) =
     [RemoveLabelCall ''kubernetes'' ''test-infra'' 5 ''lgtm''] \<and>
   filter isAddLabel (new_calls (start [])
     (snd (handle fake_pkg fake_client (config []) fake_owners
             (comment_event ''/lgtm cancel'' ''bob'' [''bob'']) (start [])))) = [] \<and>
   new_calls (start [''lgtm''])
     (snd (handle fake_pkg fake_client (config []) fake_owners
             (comment_event ''/lgtm'' ''bob'' [''bob'']) (start [''lgtm'']))) =
     [GetIssueLabelsCall ''kubernetes'' ''test-infra'' 5] \<and>
   fst (handle fake_pkg fake_client (config []) fake_owners
             (comment_event ''/lgtm'' ''bob'' [''bob'']) (start [''lgtm''])) = None"
proof -
  have w: "wantLGTM_of ''/lgtm'' = Some True" "wantLGTM_of ''/lgtm cancel'' = Some False"
    by (simp_all add: wantLGTM_of_eq line_eval)
  have a: "authorize fake_pkg fake_client (config []) fake_owners
             (comment_event body ''bob'' [''bob'']) wantLGTM (start labels) = (None, start labels)"
    for body wantLGTM labels
    by (simp add: authorize_def scenario)
  have 1: "filter isAddLabel (new_calls (start [])
     (snd (handle fake_pkg fake_client (config []) fake_owners
             (comment_event ''/lgtm'' ''bob'' [''bob'']) (start [])))) =
     [AddLabelCall ''kubernetes'' ''test-infra'' 5 ''lgtm'']"
    using w label_reconciliation
      [where e = "comment_event ''/lgtm'' ''bob'' [''bob'']" and s = "start []"
         and pkg = fake_pkg and gc = fake_client and cfg = "config []"
         and ownersClient = fake_owners, THEN conjunct1]
    by (simp add: a) (simp add: scenario)
  have 2: "filter isRemoveLabel (new_calls (start [''lgtm''])
     (snd (handle fake_pkg fake_client (config []) fake_owners
             (comment_event ''/lgtm cancel'' ''bob'' [''bob'']) (start [''lgtm''])))) =
     [RemoveLabelCall ''kubernetes'' ''test-infra'' 5 ''lgtm'']"
    using w label_reconciliation
      [where e = "comment_event ''/lgtm cancel'' ''bob'' [''bob'']" and s = "start [''lgtm'']"
         and pkg = fake_pkg and gc = fake_client and cfg = "config []"
         and ownersClient = fake_owners, THEN conjunct2, THEN conjunct1]
    by (simp add: a) (simp add: scenario)
  have 3: "filter isAddLabel (new_calls (start [])
     (snd (handle fake_pkg fake_client (config []) fake_owners
             (comment_event ''/lgtm cancel'' ''bob'' [''bob'']) (start [])))) = []"
    using w label_reconciliation
      [where e = "comment_event ''/lgtm cancel'' ''bob'' [''bob'']" and s = "start []"
         and pkg = fake_pkg and gc = fake_client and cfg = "config []"
         and ownersClient = fake_owners, THEN conjunct1]
    by (simp add: a) (simp add: scenario)
  have 4: "new_calls (start [''lgtm''])
     (snd (handle fake_pkg fake_client (config []) fake_owners
             (comment_event ''/lgtm'' ''bob'' [''bob'']) (start [''lgtm'']))) =
     [GetIssueLabelsCall ''kubernetes'' ''test-infra'' 5] \<and>
   fst (handle fake_pkg fake_client (config []) fake_owners
             (comment_event ''/lgtm'' ''bob'' [''bob'']) (start [''lgtm''])) = None"
    using w label_reconciliation
      [where e = "comment_event ''/lgtm'' ''bob'' [''bob'']" and s = "start [''lgtm'']"
         and pkg = fake_pkg and gc = fake_client and cfg = "config []"
         and ownersClient = fake_owners and wantLGTM = True,
         THEN conjunct2, THEN conjunct2, THEN conjunct1]
    by (simp add: a) (simp add: scenario)
  from 1 2 3 4 show ?thesis by blast
qed





subsection \<open>Who may change the label\<close>

text \<open>
  C5, as the code has it. The test whether the writer of the comment is an assignee
  compares logins byte for byte: where a new comment on an open pull request carries a
  command, its writer is not the author and the configuration does not list the
  repository, the handler assigns the writer exactly if the writer's login is not,
  as it is written, among the assignees' logins. Only the test against the owners
  normalizes: where the configuration lists the repository and the pull request, its
  owners and its changes are loaded, the authorization lets the writer pass exactly if
  \<open>NormLogin\<close> of the writer's login is among the reviewers and approvers.
\<close>

theorem login_comparisons:
  "(IsPR e \<and> IssueState e = ''open'' \<and> Action e = GenericCommentActionCreated \<and>
    wantLGTM_of (Body e) = Some wantLGTM \<and>
    User_Login e \<noteq> IssueAuthor_Login e \<and>
    \<not> skipCollaborators cfg (Repo_Owner_Login e) (Repo_Name e) \<longrightarrow>
      (list_ex isAssignIssue (new_calls s (snd (handle pkg gc cfg ownersClient e s))) \<longleftrightarrow>
       User_Login e \<notin> set (Assignees e))) \<and>
   (User_Login e \<noteq> IssueAuthor_Login e \<and>
    skipCollaborators cfg (Repo_Owner_Login e) (Repo_Name e) \<and>
    GetPullRequest gc (Repo_Owner_Login e) (Repo_Name e) (Number e) (world s) = (Inr pr, wa) \<and>
    LoadRepoOwners ownersClient (Repo_Owner_Login e) (Repo_Name e) (Base_Ref pr) wa = (Inr ro, wb) \<and>
    GetPullRequestChanges gc (Repo_Owner_Login e) (Repo_Name e) (Number e) wb =
      ((changes, None), wc) \<longrightarrow>
      (fst (authorize pkg gc cfg ownersClient e wantLGTM s) = None \<longleftrightarrow>
       NormLogin pkg (User_Login e) \<in> loadReviewers ro (map Filename changes)))"
proof (intro conjI impI)
  assume a: "IsPR e \<and> IssueState e = ''open'' \<and> Action e = GenericCommentActionCreated \<and>
    wantLGTM_of (Body e) = Some wantLGTM \<and>
    User_Login e \<noteq> IssueAuthor_Login e \<and>
    \<not> skipCollaborators cfg (Repo_Owner_Login e) (Repo_Name e)"
  let ?new = "new_calls s (snd (handle pkg gc cfg ownersClient e s))"
  show "list_ex isAssignIssue ?new \<longleftrightarrow> User_Login e \<notin> set (Assignees e)"
  proof
    assume l: "list_ex isAssignIssue ?new"
    from handle_new_calls[of s pkg gc cfg ownersClient e] obtain xs ys where
      h: "?new = xs @ ys"
         "list_ex isAssignIssue xs \<longrightarrow> User_Login e \<noteq> IssueAuthor_Login e \<and> \<not> isAssignee e \<and>
            \<not> skipCollaborators cfg (Repo_Owner_Login e) (Repo_Name e)"
         "list_all (\<lambda>c. \<not> authorize_call c) ys"
      by blast
    have "isAssignIssue c \<Longrightarrow> authorize_call c" for c by (cases c) simp_all
    with h(3) have "\<not> list_ex isAssignIssue ys" by (auto simp: list_ex_iff list_all_iff)
    with l h(1) have "list_ex isAssignIssue xs" by (auto simp: list_ex_iff)
    with h(2) have "\<not> isAssignee e" by blast
    then show "User_Login e \<notin> set (Assignees e)" by (auto simp: isAssignee_def list_ex_iff)
  next
    assume "User_Login e \<notin> set (Assignees e)"
    then have "\<not> isAssignee e" by (auto simp: isAssignee_def list_ex_iff)
    with a authorize_assign[of e cfg pkg gc ownersClient wantLGTM s] obtain xs where
      xs: "calls (snd (authorize pkg gc cfg ownersClient e wantLGTM s)) =
           calls s @ AssignIssueCall (Repo_Owner_Login e) (Repo_Name e) (Number e) [User_Login e] # xs"
      by blast
    from a handle_extends_authorize[of e wantLGTM pkg gc cfg ownersClient s] obtain zs where
      "calls (snd (handle pkg gc cfg ownersClient e s)) =
               calls (snd (authorize pkg gc cfg ownersClient e wantLGTM s)) @ zs"
      by blast
    with xs have "calls (snd (handle pkg gc cfg ownersClient e s)) =
        calls s @ (AssignIssueCall (Repo_Owner_Login e) (Repo_Name e) (Number e) [User_Login e] # xs @ zs)"
      by simp
    then have "?new = AssignIssueCall (Repo_Owner_Login e) (Repo_Name e) (Number e) [User_Login e] # xs @ zs"
      by (rule new_calls_append)
    then show "list_ex isAssignIssue ?new" by simp
  qed
next
  assume a: "User_Login e \<noteq> IssueAuthor_Login e \<and>
    skipCollaborators cfg (Repo_Owner_Login e) (Repo_Name e) \<and>
    GetPullRequest gc (Repo_Owner_Login e) (Repo_Name e) (Number e) (world s) = (Inr pr, wa) \<and>
    LoadRepoOwners ownersClient (Repo_Owner_Login e) (Repo_Name e) (Base_Ref pr) wa = (Inr ro, wb) \<and>
    GetPullRequestChanges gc (Repo_Owner_Login e) (Repo_Name e) (Number e) wb =
      ((changes, None), wc)"
  then have "authorize pkg gc cfg ownersClient e wantLGTM s =
     (let org = Repo_Owner_Login e; repo = Repo_Name e;
          s3 = s\<lparr>logs := logs s @
                    [Debugf ''Skipping collaborator checks and loading OWNERS for %s/%s#%d''
                       [AStr org, AStr repo, AInt (Number e)]],
                  world := wc,
                  calls := calls s @
                    [GetPullRequestCall org repo (Number e),
                     LoadRepoOwnersCall org repo (Base_Ref pr),
                     GetPullRequestChangesCall org repo (Number e)]\<rparr>;
          resp = ''adding LGTM is restricted to approvers and reviewers in OWNERS files.'';
          text = FormatResponseRaw pkg (Body e) (HTMLURL e) (User_Login e) resp
      in if NormLogin pkg (User_Login e) \<notin> loadReviewers ro (map Filename changes)
         then (Some (fst (CreateComment gc org repo (Number e) text wc)),
               s3\<lparr>logs := logs s3 @
                        [Infof (''Reply to /lgtm request with comment: '' @ quote @ ''%s'' @ quote)
                           [AStr resp]],
                    world := snd (CreateComment gc org repo (Number e) text wc),
                    calls := calls s3 @ [CreateCommentCall org repo (Number e) text]\<rparr>)
         else (None, s3))"
    by (intro owners_path) blast+
  then show "fst (authorize pkg gc cfg ownersClient e wantLGTM s) = None \<longleftrightarrow>
       NormLogin pkg (User_Login e) \<in> loadReviewers ro (map Filename changes)"
    by (simp add: Let_def)
qed

theorem login_comparisons_witness:
  "wantLGTM_of ''/lgtm'' = Some True \<and>
   list_ex isAssignIssue (new_calls (start [])
     (snd (handle fake_pkg fake_client (config []) fake_owners
             (comment_event ''/lgtm'' ''alice'' [''Alice'']) (start [])))) \<and>
   fst (authorize fake_pkg fake_client (config [''kubernetes'']) fake_owners
          (comment_event ''/lgtm'' ''Alice'' []) True (start [])) = None"
proof -
  let ?ro = "\<lparr>Approvers = (\<lambda>path. if path = ''a.go'' then {''alice''} else {}),
      Reviewers = (\<lambda>path. if path = ''b.go'' then {''bob''} else {})\<rparr>"
  have w: "wantLGTM_of ''/lgtm'' = Some True"
    by (simp add: wantLGTM_of_eq line_eval)
  have 1: "list_ex isAssignIssue (new_calls (start [])
     (snd (handle fake_pkg fake_client (config []) fake_owners
             (comment_event ''/lgtm'' ''alice'' [''Alice'']) (start []))))"
    using w login_comparisons
      [where e = "comment_event ''/lgtm'' ''alice'' [''Alice'']" and s = "start []"
         and pkg = fake_pkg and gc = fake_client and cfg = "config []"
         and ownersClient = fake_owners and wantLGTM = True, THEN conjunct1]
    by (simp add: comment_event_def config_def GenericCommentActionCreated_def
          skipCollaborators_def)
  have 2: "fst (authorize fake_pkg fake_client (config [''kubernetes'']) fake_owners
          (comment_event ''/lgtm'' ''Alice'' []) True (start [])) = None"
    using login_comparisons
      [where e = "comment_event ''/lgtm'' ''Alice'' []" and s = "start []"
         and pkg = fake_pkg and gc = fake_client and cfg = "config [''kubernetes'']"
         and ownersClient = fake_owners and wantLGTM = True and ro = ?ro
         and pr = "\<lparr>Merged = False, pr_Number = 5, Base_Ref = ''master'',
               Base_Repo_Owner_Login = ''kubernetes'', Base_Repo_Name = ''test-infra''\<rparr>"
         and changes = "[\<lparr>Filename = ''a.go''\<rparr>, \<lparr>Filename = ''b.go''\<rparr>]"
         and wa = "[]" and wb = "[]" and wc = "[]", THEN conjunct2]
    by (simp add: scenario loadReviewers_def ascii_lower_def lower_upper_def)
  from w 1 2 show ?thesis by blast
qed

text \<open>
  C5 as stated fails where the writer's login and the assignee's differ in case only: the
  two logins have the same lower-case form, the writer does not count as an assignee, and
  the handler's first call assigns the writer.
\<close>

theorem assignee_test_is_exact:
  "map ascii_lower ''Alice'' = map ascii_lower ''alice'' \<and>
   \<not> isAssignee (comment_event ''/lgtm'' ''alice'' [''Alice'']) \<and>
   new_calls (start [])
     (snd (handle fake_pkg fake_client (config []) fake_owners
             (comment_event ''/lgtm'' ''alice'' [''Alice'']) (start []))) =
     [AssignIssueCall ''kubernetes'' ''test-infra'' 5 [''alice''],
      GetIssueLabelsCall ''kubernetes'' ''test-infra'' 5,
      AddLabelCall ''kubernetes'' ''test-infra'' 5 ''lgtm'',
      BotNameCall,
      ListIssueCommentsCall ''kubernetes'' ''test-infra'' 5]"
proof -
  have w: "wantLGTM_of ''/lgtm'' = Some True"
    by (simp add: wantLGTM_of_eq line_eval)
  have 1: "map ascii_lower ''Alice'' = map ascii_lower ''alice''"
    by (simp add: ascii_lower_def lower_upper_def)
  have 2: "\<not> isAssignee (comment_event ''/lgtm'' ''alice'' [''Alice''])"
    by (simp add: isAssignee_def comment_event_def)
  have 3: "new_calls (start [])
     (snd (handle fake_pkg fake_client (config []) fake_owners
             (comment_event ''/lgtm'' ''alice'' [''Alice'']) (start []))) =
     [AssignIssueCall ''kubernetes'' ''test-infra'' 5 [''alice''],
      GetIssueLabelsCall ''kubernetes'' ''test-infra'' 5,
      AddLabelCall ''kubernetes'' ''test-infra'' 5 ''lgtm'',
      BotNameCall,
      ListIssueCommentsCall ''kubernetes'' ''test-infra'' 5]"
    using w
    by (simp add: handle_def authorize_def reconcile_def cleanup_def invoke_eq logf_def Let_def
          new_calls_def scenario)
  from 1 2 3 show ?thesis by blast
qed

text \<open>
  C9. The logins that \<open>loadReviewers\<close> returns for the changed files are the approvers
  and the reviewers of each of them, taken together. On a new comment on an open pull
  request with a command, written by someone who is not the author, in a repository that
  the configuration lists, where the pull request, its owners and its changes are
  loaded: if \<open>NormLogin\<close> of the writer's login is among those logins the handler goes
  on to the labels; if it is not, the handler, having loaded the three, posts the comment
  that denies the request, returns what posting returns, and makes no other call, so
  that no label is read, added or removed.
\<close>

theorem owners_union:
  "loadReviewers ro filenames = (\<Union>f \<in> set filenames. Approvers ro f \<union> Reviewers ro f) \<and>
   (IsPR e \<and> IssueState e = ''open'' \<and> Action e = GenericCommentActionCreated \<and>
    wantLGTM_of (Body e) = Some wantLGTM \<and>
    User_Login e \<noteq> IssueAuthor_Login e \<and>
    skipCollaborators cfg (Repo_Owner_Login e) (Repo_Name e) \<and>
    GetPullRequest gc (Repo_Owner_Login e) (Repo_Name e) (Number e) (world s) = (Inr pr, wa) \<and>
    LoadRepoOwners ownersClient (Repo_Owner_Login e) (Repo_Name e) (Base_Ref pr) wa = (Inr ro, wb) \<and>
    GetPullRequestChanges gc (Repo_Owner_Login e) (Repo_Name e) (Number e) wb =
      ((changes, None), wc) \<longrightarrow>
      (if NormLogin pkg (User_Login e)
            \<in> (\<Union>f \<in> set (map Filename changes). Approvers ro f \<union> Reviewers ro f)
       then handle pkg gc cfg ownersClient e s =
              reconcile gc e wantLGTM
                (s\<lparr>logs := logs s @
                      [Debugf ''Skipping collaborator checks and loading OWNERS for %s/%s#%d''
                         [AStr (Repo_Owner_Login e), AStr (Repo_Name e), AInt (Number e)]],
                    world := wc,
                    calls := calls s @
                      [GetPullRequestCall (Repo_Owner_Login e) (Repo_Name e) (Number e),
                       LoadRepoOwnersCall (Repo_Owner_Login e) (Repo_Name e) (Base_Ref pr),
                       GetPullRequestChangesCall (Repo_Owner_Login e) (Repo_Name e) (Number e)]\<rparr>)
       else new_calls s (snd (handle pkg gc cfg ownersClient e s)) =
              [GetPullRequestCall (Repo_Owner_Login e) (Repo_Name e) (Number e),
               LoadRepoOwnersCall (Repo_Owner_Login e) (Repo_Name e) (Base_Ref pr),
               GetPullRequestChangesCall (Repo_Owner_Login e) (Repo_Name e) (Number e),
               CreateCommentCall (Repo_Owner_Login e) (Repo_Name e) (Number e)
                 (FormatResponseRaw pkg (Body e) (HTMLURL e) (User_Login e)
                    ''adding LGTM is restricted to approvers and reviewers in OWNERS files.'')] \<and>
            fst (handle pkg gc cfg ownersClient e s) =
              fst (CreateComment gc (Repo_Owner_Login e) (Repo_Name e) (Number e)
                     (FormatResponseRaw pkg (Body e) (HTMLURL e) (User_Login e)
                        ''adding LGTM is restricted to approvers and reviewers in OWNERS files.'')
                     wc)))"
proof (intro conjI impI)
  show u: "loadReviewers ro filenames = (\<Union>f \<in> set filenames. Approvers ro f \<union> Reviewers ro f)"
    for filenames
    unfolding loadReviewers_def loadReviewers_foldl by simp
  assume a: "IsPR e \<and> IssueState e = ''open'' \<and> Action e = GenericCommentActionCreated \<and>
    wantLGTM_of (Body e) = Some wantLGTM \<and>
    User_Login e \<noteq> IssueAuthor_Login e \<and>
    skipCollaborators cfg (Repo_Owner_Login e) (Repo_Name e) \<and>
    GetPullRequest gc (Repo_Owner_Login e) (Repo_Name e) (Number e) (world s) = (Inr pr, wa) \<and>
    LoadRepoOwners ownersClient (Repo_Owner_Login e) (Repo_Name e) (Base_Ref pr) wa = (Inr ro, wb) \<and>
    GetPullRequestChanges gc (Repo_Owner_Login e) (Repo_Name e) (Number e) wb =
      ((changes, None), wc)"
  then have p: "authorize pkg gc cfg ownersClient e wantLGTM s =
     (let org = Repo_Owner_Login e; repo = Repo_Name e;
          s3 = s\<lparr>logs := logs s @
                    [Debugf ''Skipping collaborator checks and loading OWNERS for %s/%s#%d''
                       [AStr org, AStr repo, AInt (Number e)]],
                  world := wc,
                  calls := calls s @
                    [GetPullRequestCall org repo (Number e),
                     LoadRepoOwnersCall org repo (Base_Ref pr),
                     GetPullRequestChangesCall org repo (Number e)]\<rparr>;
          resp = ''adding LGTM is restricted to approvers and reviewers in OWNERS files.'';
          text = FormatResponseRaw pkg (Body e) (HTMLURL e) (User_Login e) resp
      in if NormLogin pkg (User_Login e) \<notin> loadReviewers ro (map Filename changes)
         then (Some (fst (CreateComment gc org repo (Number e) text wc)),
               s3\<lparr>logs := logs s3 @
                        [Infof (''Reply to /lgtm request with comment: '' @ quote @ ''%s'' @ quote)
                           [AStr resp]],
                    world := snd (CreateComment gc org repo (Number e) text wc),
                    calls := calls s3 @ [CreateCommentCall org repo (Number e) text]\<rparr>)
         else (None, s3))"
    by (intro owners_path) blast+
  from a show "if NormLogin pkg (User_Login e)
            \<in> (\<Union>f \<in> set (map Filename changes). Approvers ro f \<union> Reviewers ro f)
       then handle pkg gc cfg ownersClient e s =
              reconcile gc e wantLGTM
                (s\<lparr>logs := logs s @
                      [Debugf ''Skipping collaborator checks and loading OWNERS for %s/%s#%d''
                         [AStr (Repo_Owner_Login e), AStr (Repo_Name e), AInt (Number e)]],
                    world := wc,
                    calls := calls s @
                      [GetPullRequestCall (Repo_Owner_Login e) (Repo_Name e) (Number e),
                       LoadRepoOwnersCall (Repo_Owner_Login e) (Repo_Name e) (Base_Ref pr),
                       GetPullRequestChangesCall (Repo_Owner_Login e) (Repo_Name e) (Number e)]\<rparr>)
       else new_calls s (snd (handle pkg gc cfg ownersClient e s)) =
              [GetPullRequestCall (Repo_Owner_Login e) (Repo_Name e) (Number e),
               LoadRepoOwnersCall (Repo_Owner_Login e) (Repo_Name e) (Base_Ref pr),
               GetPullRequestChangesCall (Repo_Owner_Login e) (Repo_Name e) (Number e),
               CreateCommentCall (Repo_Owner_Login e) (Repo_Name e) (Number e)
                 (FormatResponseRaw pkg (Body e) (HTMLURL e) (User_Login e)
                    ''adding LGTM is restricted to approvers and reviewers in OWNERS files.'')] \<and>
            fst (handle pkg gc cfg ownersClient e s) =
              fst (CreateComment gc (Repo_Owner_Login e) (Repo_Name e) (Number e)
                     (FormatResponseRaw pkg (Body e) (HTMLURL e) (User_Login e)
                        ''adding LGTM is restricted to approvers and reviewers in OWNERS files.'')
                     wc)"
    unfolding u[symmetric]
    by (simp add: handle_def p Let_def new_calls_def)
qed

theorem owners_union_witness:
  "wantLGTM_of ''/lgtm'' = Some True \<and>
   loadReviewers
     \<lparr>Approvers = (\<lambda>path. if path = ''a.go'' then {''alice''} else {}),
      Reviewers = (\<lambda>path. if path = ''b.go'' then {''bob''} else {})\<rparr> [''a.go'', ''b.go''] =
     {''alice'', ''bob''} \<and>
   new_calls (start [])
     (snd (handle fake_pkg fake_client (config [''kubernetes/test-infra'']) fake_owners
             (comment_event ''/lgtm'' ''Carol'' []) (start []))) =
     [GetPullRequestCall ''kubernetes'' ''test-infra'' 5,
      LoadRepoOwnersCall ''kubernetes'' ''test-infra'' ''master'',
      GetPullRequestChangesCall ''kubernetes'' ''test-infra'' 5,
      CreateCommentCall ''kubernetes'' ''test-infra'' 5
        ''@Carol: adding LGTM is restricted to approvers and reviewers in OWNERS files.'']"
proof -
  let ?ro = "\<lparr>Approvers = (\<lambda>path. if path = ''a.go'' then {''alice''} else {}),
      Reviewers = (\<lambda>path. if path = ''b.go'' then {''bob''} else {})\<rparr>"
  have w: "wantLGTM_of ''/lgtm'' = Some True"
    by (simp add: wantLGTM_of_eq line_eval)
  have 1: "loadReviewers ?ro [''a.go'', ''b.go''] = {''alice'', ''bob''}"
    using owners_union [where ro = ?ro and filenames = "[''a.go'', ''b.go'']", THEN conjunct1]
    by auto
  have 2: "new_calls (start [])
     (snd (handle fake_pkg fake_client (config [''kubernetes/test-infra'']) fake_owners
             (comment_event ''/lgtm'' ''Carol'' []) (start []))) =
     [GetPullRequestCall ''kubernetes'' ''test-infra'' 5,
      LoadRepoOwnersCall ''kubernetes'' ''test-infra'' ''master'',
      GetPullRequestChangesCall ''kubernetes'' ''test-infra'' 5,
      CreateCommentCall ''kubernetes'' ''test-infra'' 5
        ''@Carol: adding LGTM is restricted to approvers and reviewers in OWNERS files.'']"
    using w owners_union
      [where e = "comment_event ''/lgtm'' ''Carol'' []" and s = "start []"
         and pkg = fake_pkg and gc = fake_client and cfg = "config [''kubernetes/test-infra'']"
         and ownersClient = fake_owners and wantLGTM = True and ro = ?ro
         and pr = "\<lparr>Merged = False, pr_Number = 5, Base_Ref = ''master'',
               Base_Repo_Owner_Login = ''kubernetes'', Base_Repo_Name = ''test-infra''\<rparr>"
         and changes = "[\<lparr>Filename = ''a.go''\<rparr>, \<lparr>Filename = ''b.go''\<rparr>]"
         and wa = "[]" and wb = "[]" and wc = "[]", THEN conjunct2]
    by (simp add: scenario ascii_lower_def lower_upper_def)
  from w 1 2 show ?thesis by blast
qed


text \<open>
  C10. On a new comment on an open pull request with one of the two commands, written by
  someone who is not the author and whose login is, byte for byte, the login of an
  assignee, in a repository that the configuration does not list, the handler goes
  straight to the labels and neither assigns anybody nor asks whether the writer is a
  collaborator. In every run of the handler that assigns somebody, the writer's login is
  not among the assignees' logins.
\<close>

theorem assignee_needs_no_assignment:
  "(IsPR e \<and> IssueState e = ''open'' \<and> Action e = GenericCommentActionCreated \<and>
    wantLGTM_of (Body e) = Some wantLGTM \<and>
    User_Login e \<noteq> IssueAuthor_Login e \<and> User_Login e \<in> set (Assignees e) \<and>
    \<not> skipCollaborators cfg (Repo_Owner_Login e) (Repo_Name e) \<longrightarrow>
      handle pkg gc cfg ownersClient e s = reconcile gc e wantLGTM s \<and>
      \<not> list_ex isAssignIssue (new_calls s (snd (handle pkg gc cfg ownersClient e s))) \<and>
      \<not> list_ex isIsCollaborator (new_calls s (snd (handle pkg gc cfg ownersClient e s)))) \<and>
   (list_ex isAssignIssue (new_calls s (snd (handle pkg gc cfg ownersClient e s))) \<longrightarrow>
      User_Login e \<notin> set (Assignees e))"
proof (intro conjI impI)
  assume a: "IsPR e \<and> IssueState e = ''open'' \<and> Action e = GenericCommentActionCreated \<and>
    wantLGTM_of (Body e) = Some wantLGTM \<and>
    User_Login e \<noteq> IssueAuthor_Login e \<and> User_Login e \<in> set (Assignees e) \<and>
    \<not> skipCollaborators cfg (Repo_Owner_Login e) (Repo_Name e)"
  then have "isAssignee e" by (auto simp: isAssignee_def list_ex_iff)
  with a have "authorize pkg gc cfg ownersClient e wantLGTM s = (None, s)"
    by (intro authorize_pass) simp
  with a show h: "handle pkg gc cfg ownersClient e s = reconcile gc e wantLGTM s"
    by (simp add: handle_def)
  have q: "list_all (\<lambda>c. \<not> authorize_call c) (new_calls s (snd (reconcile gc e wantLGTM s)))"
    by (rule reconcile_labels(4))
  have "isAssignIssue c \<Longrightarrow> authorize_call c" for c by (cases c) simp_all
  with q show "\<not> list_ex isAssignIssue (new_calls s (snd (handle pkg gc cfg ownersClient e s)))"
    unfolding h by (auto simp: list_ex_iff list_all_iff)
  have "isIsCollaborator c \<Longrightarrow> authorize_call c" for c by (cases c) simp_all
  with q show "\<not> list_ex isIsCollaborator (new_calls s (snd (handle pkg gc cfg ownersClient e s)))"
    unfolding h by (auto simp: list_ex_iff list_all_iff)
next
  assume a: "list_ex isAssignIssue (new_calls s (snd (handle pkg gc cfg ownersClient e s)))"
  from handle_new_calls[of s pkg gc cfg ownersClient e] obtain xs ys where
    h: "new_calls s (snd (handle pkg gc cfg ownersClient e s)) = xs @ ys"
       "list_ex isAssignIssue xs \<longrightarrow> User_Login e \<noteq> IssueAuthor_Login e \<and> \<not> isAssignee e \<and>
          \<not> skipCollaborators cfg (Repo_Owner_Login e) (Repo_Name e)"
       "list_all (\<lambda>c. \<not> authorize_call c) ys"
    by blast
  have "isAssignIssue c \<Longrightarrow> authorize_call c" for c by (cases c) simp_all
  with h(3) have "\<not> list_ex isAssignIssue ys" by (auto simp: list_ex_iff list_all_iff)
  with a h(1) have "list_ex isAssignIssue xs" by (auto simp: list_ex_iff)
  with h(2) have "\<not> isAssignee e" by blast
  then show "User_Login e \<notin> set (Assignees e)" by (auto simp: isAssignee_def list_ex_iff)
qed

theorem assignee_needs_no_assignment_witness:
  "wantLGTM_of ''/lgtm'' = Some True \<and>
   new_calls (start [])
     (snd (handle fake_pkg fake_client (config []) fake_owners
             (comment_event ''/lgtm'' ''bob'' [''alice'', ''bob'']) (start []))) =
   new_calls (start [])
     (snd (reconcile fake_client (comment_event ''/lgtm'' ''bob'' [''alice'', ''bob'']) True (start []))) \<and>
   list_ex isAssignIssue (new_calls (start [])
     (snd (handle fake_pkg fake_client (config []) fake_owners
             (comment_event ''/lgtm'' ''bob'' [''alice'']) (start [])))) \<and>
   ''bob'' \<notin> set [''alice'']"
proof -
  have w: "wantLGTM_of ''/lgtm'' = Some True"
    by (simp add: wantLGTM_of_eq line_eval)
  have "new_calls (start [])
     (snd (handle fake_pkg fake_client (config []) fake_owners
             (comment_event ''/lgtm'' ''bob'' [''alice'', ''bob'']) (start []))) =
   new_calls (start [])
     (snd (reconcile fake_client (comment_event ''/lgtm'' ''bob'' [''alice'', ''bob'']) True (start [])))"
    using w assignee_needs_no_assignment
      [where e = "comment_event ''/lgtm'' ''bob'' [''alice'', ''bob'']" and s = "start []"
         and pkg = fake_pkg and gc = fake_client and cfg = "config []"
         and ownersClient = fake_owners and wantLGTM = True, THEN conjunct1]
    by (simp add: comment_event_def config_def GenericCommentActionCreated_def
          skipCollaborators_def)
  moreover have a: "list_ex isAssignIssue (new_calls (start [])
     (snd (handle fake_pkg fake_client (config []) fake_owners
             (comment_event ''/lgtm'' ''bob'' [''alice'']) (start []))))"
    using w
    by (simp add: handle_def authorize_def reconcile_def cleanup_def invoke_eq logf_def Let_def
          new_calls_def scenario)
  moreover have "''bob'' \<notin> set [''alice'']"
    using a assignee_needs_no_assignment
      [where e = "comment_event ''/lgtm'' ''bob'' [''alice'']" and s = "start []"
         and pkg = fake_pkg and gc = fake_client and cfg = "config []"
         and ownersClient = fake_owners, THEN conjunct2]
    by (simp add: comment_event_def)
  ultimately show ?thesis using w by blast
qed


section \<open>The handler of pull request events\<close>

text \<open>
  C8. On an event of a merged pull request, or with an action other than "synchronize",
  the handler makes no call and returns success. Otherwise it removes the label, once.
  If that fails with \<open>LabelNotFound\<close> it returns success without a comment; if it fails
  with another error it returns an error that carries that error, without a comment; if
  it succeeds it posts the notification, once, and returns what posting returns.
\<close>

theorem synchronize_handler:
  "(Merged (pe_PullRequest pe) \<or> pe_Action pe \<noteq> PullRequestActionSynchronize \<longrightarrow>
      handlePullRequest gc pe s = (None, s)) \<and>
   (\<not> Merged (pe_PullRequest pe) \<and> pe_Action pe = PullRequestActionSynchronize \<longrightarrow>
      (let org = Base_Repo_Owner_Login (pe_PullRequest pe);
           repo = Base_Repo_Name (pe_PullRequest pe);
           number = pr_Number (pe_PullRequest pe);
           removal = RemoveLabel gc org repo number lgtmLabel (world s);
           new = new_calls s (snd (handlePullRequest gc pe s));
           result = fst (handlePullRequest gc pe s)
       in (fst removal = Some LabelNotFound \<longrightarrow>
             new = [RemoveLabelCall org repo number lgtmLabel] \<and> result = None) \<and>
          (\<forall>err. fst removal = Some err \<and> err \<noteq> LabelNotFound \<longrightarrow>
             new = [RemoveLabelCall org repo number lgtmLabel] \<and>
             result = Some (Errorf ''failed removing lgtm label: %v'' [AErr err])) \<and>
          (fst removal = None \<longrightarrow>
             new = [RemoveLabelCall org repo number lgtmLabel,
                    CreateCommentCall org repo number removeLGTMLabelNoti] \<and>
             result = fst (CreateComment gc org repo number removeLGTMLabelNoti (snd removal)))))"
  by (auto simp: handlePullRequest_def Let_def invoke_eq logf_def new_calls_def
           split: prod.splits option.splits)

theorem synchronize_handler_witness:
  "handlePullRequest fake_client (sync_event True ''synchronize'') (start [''lgtm'']) =
     (None, start [''lgtm'']) \<and>
   handlePullRequest fake_client (sync_event False ''opened'') (start [''lgtm'']) =
     (None, start [''lgtm'']) \<and>
   new_calls (start []) (snd (handlePullRequest fake_client (sync_event False ''synchronize'') (start []))) =
     [RemoveLabelCall ''kubernetes'' ''test-infra'' 5 ''lgtm''] \<and>
   fst (handlePullRequest fake_client (sync_event False ''synchronize'') (start [])) = None \<and>
   new_calls (start [''lgtm''])
     (snd (handlePullRequest fake_client (sync_event False ''synchronize'') (start [''lgtm'']))) =
     [RemoveLabelCall ''kubernetes'' ''test-infra'' 5 ''lgtm'',
      CreateCommentCall ''kubernetes'' ''test-infra'' 5
        ''New changes are detected. LGTM label has been removed.''] \<and>
   fst (handlePullRequest
          (fake_client\<lparr>RemoveLabel := (\<lambda>org repo number label w. (Some (ClientError ''502''), w))\<rparr>)
          (sync_event False ''synchronize'') (start [''lgtm''])) =
     Some (Errorf ''failed removing lgtm label: %v'' [AErr (ClientError ''502'')])"
proof -
  have 1: "handlePullRequest fake_client (sync_event True ''synchronize'') (start [''lgtm'']) =
     (None, start [''lgtm''])"
    using synchronize_handler
      [where pe = "sync_event True ''synchronize''" and gc = fake_client and s = "start [''lgtm'']",
        THEN conjunct1]
    by (simp add: sync_event_def)
  have 2: "handlePullRequest fake_client (sync_event False ''opened'') (start [''lgtm'']) =
     (None, start [''lgtm''])"
    using synchronize_handler
      [where pe = "sync_event False ''opened''" and gc = fake_client and s = "start [''lgtm'']",
        THEN conjunct1]
    by (simp add: sync_event_def PullRequestActionSynchronize_def)
  have 3: "new_calls (start []) (snd (handlePullRequest fake_client (sync_event False ''synchronize'') (start []))) =
     [RemoveLabelCall ''kubernetes'' ''test-infra'' 5 ''lgtm''] \<and>
   fst (handlePullRequest fake_client (sync_event False ''synchronize'') (start [])) = None"
    using synchronize_handler
      [where pe = "sync_event False ''synchronize''" and gc = fake_client and s = "start []",
        THEN conjunct2]
    by (simp add: scenario removeLGTMLabelNoti_def Let_def)
  have 4: "new_calls (start [''lgtm''])
     (snd (handlePullRequest fake_client (sync_event False ''synchronize'') (start [''lgtm'']))) =
     [RemoveLabelCall ''kubernetes'' ''test-infra'' 5 ''lgtm'',
      CreateCommentCall ''kubernetes'' ''test-infra'' 5
        ''New changes are detected. LGTM label has been removed.'']"
    using synchronize_handler
      [where pe = "sync_event False ''synchronize''" and gc = fake_client and s = "start [''lgtm'']",
        THEN conjunct2]
    by (simp add: scenario removeLGTMLabelNoti_def Let_def)
  have 5: "fst (handlePullRequest
          (fake_client\<lparr>RemoveLabel := (\<lambda>org repo number label w. (Some (ClientError ''502''), w))\<rparr>)
          (sync_event False ''synchronize'') (start [''lgtm''])) =
     Some (Errorf ''failed removing lgtm label: %v'' [AErr (ClientError ''502'')])"
    using synchronize_handler
      [where pe = "sync_event False ''synchronize''"
         and gc = "fake_client\<lparr>RemoveLabel := (\<lambda>org repo number label w. (Some (ClientError ''502''), w))\<rparr>"
         and s = "start [''lgtm'']", THEN conjunct2]
    by (simp add: scenario removeLGTMLabelNoti_def Let_def)
  from 1 2 3 4 5 show ?thesis by blast
qed

end
